theory Spec2Isabelle
  imports Complex_Main "HOL-Library.Sublist"
begin

section \<open>Python strings\<close>

text \<open>
  A Python \<open>str\<close> is a sequence of Unicode code points; it is modelled as a list of
  natural numbers, one per code point. \<open>ustr\<close> turns an ASCII literal into such a list.
\<close>

type_synonym str = "nat list"

definition ustr :: "string \<Rightarrow> str" where
  "ustr s = map of_char s"

text \<open>\<open>str.isspace\<close> of one code point: the whitespace table of CPython.\<close>

definition isspace :: "nat \<Rightarrow> bool" where
  "isspace c = (c \<in> {0x9, 0xA, 0xB, 0xC, 0xD, 0x1C, 0x1D, 0x1E, 0x1F, 0x20, 0x85, 0xA0,
      0x1680, 0x2028, 0x2029, 0x202F, 0x205F, 0x3000} \<or> (0x2000 \<le> c \<and> c \<le> 0x200A))"

text \<open>\<open>s.strip()\<close>: leading and trailing whitespace removed.\<close>

definition strip :: "str \<Rightarrow> str" where
  "strip s = rev (dropWhile isspace (rev (dropWhile isspace s)))"

text \<open>\<open>s.rsplit(sep, 1)\<close> for a one-character separator: split at its last occurrence.\<close>

definition rsplit1 :: "nat \<Rightarrow> str \<Rightarrow> str list" where
  "rsplit1 sep s =
     (if sep \<in> set s
      then [rev (tl (dropWhile (\<lambda>c. c \<noteq> sep) (rev s))), rev (takeWhile (\<lambda>c. c \<noteq> sep) (rev s))]
      else [s])"

text \<open>
  \<open>s.split()\<close> without arguments: skip whitespace, take the maximal run of other
  characters as a token, repeat. No token is empty.
\<close>

function split_ws :: "str \<Rightarrow> str list" where
  "split_ws s =
     (case dropWhile isspace s of
        [] \<Rightarrow> []
      | c # cs \<Rightarrow> (c # takeWhile (\<lambda>x. \<not> isspace x) cs)
                 # split_ws (dropWhile (\<lambda>x. \<not> isspace x) cs))"
  by pat_completeness auto
termination
proof (relation "measure length")
  fix s :: str and c cs
  assume h: "dropWhile isspace s = c # cs"
  have "length (dropWhile (\<lambda>x. \<not> isspace x) cs) \<le> length cs"
    by (rule length_dropWhile_le)
  moreover have "length (c # cs) \<le> length s"
    using length_dropWhile_le [of isspace s] h by simp
  ultimately show "(dropWhile (\<lambda>x. \<not> isspace x) cs, s) \<in> measure length"
    by simp
qed simp

declare split_ws.simps [simp del]

text \<open>\<open>sep.join(ws)\<close>.\<close>

fun join :: "str \<Rightarrow> str list \<Rightarrow> str" where
  "join sep [] = []"
| "join sep [w] = w"
| "join sep (w # v # ws) = w @ sep @ join sep (v # ws)"

text \<open>The kebab-casing of \<open>Renamer.rename\<close>: \<open>"-".join([w for w in s.split() if w])\<close>.\<close>

definition kebab :: "str \<Rightarrow> str" where
  "kebab s = join (ustr ''-'') (filter (\<lambda>w. w \<noteq> []) (split_ws s))"

text \<open>\<open>str(n)\<close> for a non-negative integer, as an f-string renders the counter.\<close>

function str_nat :: "nat \<Rightarrow> str" where
  "str_nat n = (if n < 10 then [of_char CHR ''0'' + n]
                else str_nat (n div 10) @ [of_char CHR ''0'' + n mod 10])"
  by pat_completeness auto
termination
  by (relation "measure id") auto

declare str_nat.simps [simp del]

definition endswith :: "str \<Rightarrow> str \<Rightarrow> bool" where
  "endswith s suf = (length suf \<le> length s \<and> drop (length s - length suf) s = suf)"

section \<open>Exceptions\<close>

text \<open>
  The exceptions the program can meet. All of them are subclasses of Python's
  \<open>Exception\<close>, so \<open>except Exception\<close> catches each of them. The last
  four are the \<open>OSError\<close>s of the file system model below; \<open>OSError n\<close> is
  a plain \<open>OSError\<close> with the error number \<open>n\<close>.
\<close>

datatype exn =
    TypeError | ValueError | AttributeError | KeyError | StopIteration
  | OtherException str
  | FileNotFoundError | IsADirectoryError | NotADirectoryError | OSError nat

section \<open>Values returned by json.loads\<close>

datatype pyval =
    PNone | PBool bool | PInt int | PFloat real | PStr str
  | PList "pyval list" | PDict "(str \<times> pyval) list"

text \<open>Truth value of an object in a boolean context.\<close>

fun truthy :: "pyval \<Rightarrow> bool" where
  "truthy PNone = False"
| "truthy (PBool b) = b"
| "truthy (PInt i) = (i \<noteq> 0)"
| "truthy (PFloat r) = (r \<noteq> 0)"
| "truthy (PStr s) = (s \<noteq> [])"
| "truthy (PList l) = (l \<noteq> [])"
| "truthy (PDict d) = (d \<noteq> [])"

fun is_prefix :: "str \<Rightarrow> str \<Rightarrow> bool" where
  "is_prefix [] t = True"
| "is_prefix (x # xs) [] = False"
| "is_prefix (x # xs) (y # ys) = (x = y \<and> is_prefix xs ys)"

fun is_substring :: "str \<Rightarrow> str \<Rightarrow> bool" where
  "is_substring k [] = (k = [])"
| "is_substring k (c # cs) = (is_prefix k (c # cs) \<or> is_substring k cs)"

text \<open>
  \<open>key in answer\<close> for a string key: key lookup in a dict, membership in a list,
  substring test in a string, and \<open>TypeError\<close> for \<open>None\<close>, booleans and numbers,
  which are not iterable.
\<close>

fun py_contains :: "str \<Rightarrow> pyval \<Rightarrow> exn + bool" where
  "py_contains k (PDict d) = Inr (map_of d k \<noteq> None)"
| "py_contains k (PList l) = Inr (PStr k \<in> set l)"
| "py_contains k (PStr s) = Inr (is_substring k s)"
| "py_contains k v = Inl TypeError"

text \<open>
  \<open>answer[key]\<close> for a string key: only a dict can be indexed by a string.
\<close>

fun py_getitem :: "pyval \<Rightarrow> str \<Rightarrow> exn + pyval" where
  "py_getitem (PDict d) k = (case map_of d k of None \<Rightarrow> Inl KeyError | Some v \<Rightarrow> Inr v)"
| "py_getitem v k = Inl TypeError"

text \<open>The test \<open>key in answer and answer[key]\<close>, as a truth value.\<close>

definition has_value :: "str \<Rightarrow> pyval \<Rightarrow> exn + bool" where
  "has_value k answer =
     (case py_contains k answer of
        Inl e \<Rightarrow> Inl e
      | Inr False \<Rightarrow> Inr False
      | Inr True \<Rightarrow> (case py_getitem answer k of Inl e \<Rightarrow> Inl e | Inr v \<Rightarrow> Inr (truthy v)))"

text \<open>\<open>a or b\<close>.\<close>

definition py_or :: "pyval \<Rightarrow> pyval \<Rightarrow> pyval" where
  "py_or a b = (if truthy a then a else b)"

section \<open>Paths\<close>

text \<open>
  A \<open>pathlib\<close> path on POSIX: whether it is anchored at the root, and its components.
  \<open>parse_path\<close> is \<open>Path(s)\<close>: the text is cut at every slash, empty components and
  single dots are dropped. \<open>joinpath p q\<close> is \<open>p / q\<close>: an absolute right operand
  replaces the left one.
\<close>

datatype path = Path (absolute: bool) (parts: "str list")

fun split_on :: "nat \<Rightarrow> str \<Rightarrow> str list" where
  "split_on c [] = [[]]"
| "split_on c (x # xs) =
     (if x = c then [] # split_on c xs
      else (case split_on c xs of [] \<Rightarrow> [[x]] | w # ws \<Rightarrow> (x # w) # ws))"

definition parse_path :: "str \<Rightarrow> path" where
  "parse_path s =
     Path (s \<noteq> [] \<and> hd s = of_char CHR ''/'')
          (filter (\<lambda>w. w \<noteq> [] \<and> w \<noteq> ustr ''.'') (split_on (of_char CHR ''/'') s))"

definition joinpath :: "path \<Rightarrow> path \<Rightarrow> path" where
  "joinpath p q = (if absolute q then q else Path (absolute p) (parts p @ parts q))"

text \<open>\<open>p.name\<close>, \<open>p.suffix\<close> and \<open>p.stem\<close>.\<close>

definition name_of :: "path \<Rightarrow> str" where
  "name_of p = (if parts p = [] then [] else last (parts p))"

definition suffix_of :: "path \<Rightarrow> str" where
  "suffix_of p =
     (case rsplit1 (of_char CHR ''.'') (name_of p) of
        [before, after] \<Rightarrow> (if before \<noteq> [] \<and> after \<noteq> [] then of_char CHR ''.'' # after else [])
      | _ \<Rightarrow> [])"

definition stem_of :: "path \<Rightarrow> str" where
  "stem_of p =
     (case rsplit1 (of_char CHR ''.'') (name_of p) of
        [before, after] \<Rightarrow> (if before \<noteq> [] \<and> after \<noteq> [] then before else name_of p)
      | _ \<Rightarrow> name_of p)"

section \<open>The file system\<close>

text \<open>
  The file system is the list of its entries: a path with a regular file (and its
  content) or a directory. The current directory and the root (the paths without
  components) always exist.
\<close>

datatype node = File str | Dir

type_synonym fs = "(path \<times> node) list"

definition exists_fs :: "fs \<Rightarrow> path \<Rightarrow> bool" where
  "exists_fs fs p = (parts p = [] \<or> map_of fs p \<noteq> None)"

text \<open>
  What the operating system sees of a path is its text in the file system encoding
  (UTF-8 with \<open>surrogateescape\<close>). A text with a NUL character or with a surrogate that
  does not stand for an escaped byte cannot be passed on at all. A component of more
  than 255 bytes, or a text of more than 4095 bytes, is refused by the system with the
  error number 36 (\<open>ENAMETOOLONG\<close>); these are the limits of Linux.
\<close>

definition utf8_width :: "nat \<Rightarrow> nat" where
  "utf8_width c =
     (if c < 0x80 then 1
      else if c < 0x800 then 2
      else if 0xDC80 \<le> c \<and> c \<le> 0xDCFF then 1
      else if c < 0x10000 then 3
      else 4)"

definition utf8_length :: "str \<Rightarrow> nat" where
  "utf8_length s = sum_list (map utf8_width s)"

definition encodable :: "str \<Rightarrow> bool" where
  "encodable s =
     list_all (\<lambda>c. c \<noteq> 0 \<and> (c < 0xD800 \<or> 0xDFFF < c \<or> (0xDC80 \<le> c \<and> c \<le> 0xDCFF))) s"

text \<open>\<open>str(p)\<close>.\<close>

definition path_text :: "path \<Rightarrow> str" where
  "path_text p =
     (if absolute p then ustr ''/'' @ join (ustr ''/'') (parts p)
      else if parts p = [] then ustr ''.''
      else join (ustr ''/'') (parts p))"

definition name_too_long :: "path \<Rightarrow> bool" where
  "name_too_long p =
     (list_ex (\<lambda>w. 255 < utf8_length w) (parts p) \<or> 4095 < utf8_length (path_text p))"

text \<open>
  \<open>p.exists()\<close>: \<open>Path.exists\<close> answers \<open>False\<close> for a text that cannot be encoded
  (\<open>ValueError\<close>) and for a path that is not there; any other error of the system
  call is raised again, here the one for an over-long name.
\<close>

definition path_exists :: "fs \<Rightarrow> path \<Rightarrow> exn + bool" where
  "path_exists fs p =
     (if \<not> encodable (path_text p) then Inr False
      else if name_too_long p then Inl (OSError 36)
      else Inr (exists_fs fs p))"

definition is_dir :: "fs \<Rightarrow> path \<Rightarrow> bool" where
  "is_dir fs p = (parts p = [] \<or> map_of fs p = Some Dir)"

definition parent :: "path \<Rightarrow> path" where
  "parent p = Path (absolute p) (butlast (parts p))"

text \<open>\<open>d.glob("*.pdf")\<close>: the entries of \<open>d\<close> whose name ends in \<open>.pdf\<close>.\<close>

definition glob_pdf :: "fs \<Rightarrow> path \<Rightarrow> path list" where
  "glob_pdf fs d =
     filter (\<lambda>p. parts p \<noteq> [] \<and> parent p = d \<and> endswith (name_of p) (ustr ''.pdf''))
            (remdups (map fst fs))"

text \<open>
  \<open>src.replace(dst)\<close>, that is \<open>os.replace\<close>: both texts must be encodable
  (\<open>ValueError\<close> otherwise) and within the length limits, the source must exist, the
  directory of the destination must exist, the destination must not be a directory; an
  existing file at the destination is replaced silently.
\<close>

definition os_replace :: "fs \<Rightarrow> path \<Rightarrow> path \<Rightarrow> exn + fs" where
  "os_replace fs src dst =
     (if \<not> encodable (path_text src) \<or> \<not> encodable (path_text dst) then Inl ValueError
      else if name_too_long src \<or> name_too_long dst then Inl (OSError 36)
      else
       (case map_of fs src of
          None \<Rightarrow> Inl FileNotFoundError
        | Some n \<Rightarrow>
            if \<not> exists_fs fs (parent dst) then Inl FileNotFoundError
            else if \<not> is_dir fs (parent dst) then Inl NotADirectoryError
            else if map_of fs dst = Some Dir then Inl IsADirectoryError
            else Inr ((dst, n) # filter (\<lambda>(p, _). p \<noteq> src \<and> p \<noteq> dst) fs)))"

section \<open>The heuristic splitter\<close>

text \<open>
  \<open>Renamer._split_publisher_and_title\<close>. The unpacking \<open>title, publisher = parts\<close>
  raises \<open>ValueError\<close> unless the list has two elements.
\<close>

definition split_publisher_and_title :: "str \<Rightarrow> exn + (str \<times> str)" where
  "split_publisher_and_title filename =
     (let parts0 = map strip (rsplit1 (of_char CHR ''_'') filename);
          parts1 = (if length parts0 = 1
                    then (let parts2 = map strip (rsplit1 (of_char CHR ''-'') filename)
                          in if length parts2 = 1 then parts2 @ [ustr ''no-publisher''] else parts2)
                    else parts0)
      in case parts1 of
           [title, publisher] \<Rightarrow> Inr (title, publisher)
         | _ \<Rightarrow> Inl ValueError)"

section \<open>The collaborators and the Renamer\<close>

text \<open>
  The language model, the JSON parser, the date functions and the PDF loader are outside
  the repository; they are parameters. A prompt is identified by its template and the
  values filled in. \<open>json_loads\<close> returns \<open>None\<close> where \<open>json.loads\<close> raises
  \<open>JSONDecodeError\<close>, \<open>fromisoformat\<close> returns \<open>None\<close> where \<open>date.fromisoformat\<close>
  raises \<open>ValueError\<close> on a string, and \<open>load_first_page\<close> is
  \<open>next(PyPDFLoader(path).lazy_load()).page_content\<close> with whatever it raises.
  The logging calls inside the Renamer change neither results nor control flow and are
  left out; the log of \<open>run\<close> is modelled below.
\<close>

datatype prompt = PublishDatePrompt str str | PublisherPrompt str

datatype date = Date nat nat nat

record library =
  chat_ollama :: "str \<Rightarrow> prompt \<Rightarrow> exn + str"
  json_loads :: "str \<Rightarrow> pyval option"
  fromisoformat :: "str \<Rightarrow> date option"
  strftime :: "date \<Rightarrow> str \<Rightarrow> str"
  load_first_page :: "path \<Rightarrow> exn + str"

record renamer =
  model :: "prompt \<Rightarrow> exn + str"
  date_format :: str
  out_path :: path

text \<open>
  \<open>Renamer._invoke_model\<close>: a \<open>JSONDecodeError\<close> is caught and logged, and the method
  then falls off its end, so it returns \<open>None\<close>.
\<close>

definition invoke_model :: "library \<Rightarrow> renamer \<Rightarrow> prompt \<Rightarrow> exn + pyval" where
  "invoke_model lib self p =
     (case model self p of
        Inl e \<Rightarrow> Inl e
      | Inr content \<Rightarrow> (case json_loads lib content of None \<Rightarrow> Inr PNone | Some answer \<Rightarrow> Inr answer))"

text \<open>
  \<open>Renamer._extract_publish_date\<close>. \<open>date.fromisoformat\<close> raises \<open>TypeError\<close> for an
  argument that is not a string; only \<open>ValueError\<close> is caught.
\<close>

definition extract_publish_date :: "library \<Rightarrow> renamer \<Rightarrow> str \<Rightarrow> exn + str option" where
  "extract_publish_date lib self text =
     (case invoke_model lib self (PublishDatePrompt (ustr ''YYYY-MM-DD'') text) of
        Inl e \<Rightarrow> Inl e
      | Inr answer \<Rightarrow>
          (case has_value (ustr ''end_date'') answer of
             Inl e \<Rightarrow> Inl e
           | Inr False \<Rightarrow> Inr None
           | Inr True \<Rightarrow>
               (case py_getitem answer (ustr ''end_date'') of
                  Inl e \<Rightarrow> Inl e
                | Inr (PStr s) \<Rightarrow>
                    (case fromisoformat lib s of
                       None \<Rightarrow> Inr None
                     | Some d \<Rightarrow> Inr (Some (strftime lib d (date_format self))))
                | Inr _ \<Rightarrow> Inl TypeError)))"

text \<open>
  \<open>Renamer._extract_publisher\<close>; the result is the pair \<open>(title, publisher)\<close>, a
  missing field being \<open>PNone\<close>. The publisher is looked at first.
\<close>

definition extract_field :: "str \<Rightarrow> pyval \<Rightarrow> exn + pyval" where
  "extract_field k answer =
     (case has_value k answer of
        Inl e \<Rightarrow> Inl e
      | Inr False \<Rightarrow> Inr PNone
      | Inr True \<Rightarrow> py_getitem answer k)"

definition extract_publisher :: "library \<Rightarrow> renamer \<Rightarrow> str \<Rightarrow> exn + (pyval \<times> pyval)" where
  "extract_publisher lib self filename =
     (case invoke_model lib self (PublisherPrompt filename) of
        Inl e \<Rightarrow> Inl e
      | Inr answer \<Rightarrow>
          (case extract_field (ustr ''publisher'') answer of
             Inl e \<Rightarrow> Inl e
           | Inr publisher \<Rightarrow>
               (case extract_field (ustr ''title'') answer of
                  Inl e \<Rightarrow> Inl e
                | Inr title \<Rightarrow> Inr (title, publisher))))"

text \<open>
  The fallback of \<open>Renamer.rename\<close>: the splitter is called only when a field is
  \<open>None\<close>, and \<open>title or h_title\<close> keeps a title that is there.
\<close>

definition fill_missing :: "pyval \<times> pyval \<Rightarrow> str \<Rightarrow> exn + (pyval \<times> pyval)" where
  "fill_missing tp stem =
     (case tp of (title, publisher) \<Rightarrow>
        if title = PNone \<or> publisher = PNone
        then (case split_publisher_and_title stem of
                Inl e \<Rightarrow> Inl e
              | Inr (h_title, h_publisher) \<Rightarrow>
                  Inr (py_or title (PStr h_title), py_or publisher (PStr h_publisher)))
        else Inr (title, publisher))"

text \<open>
  The kebab-casing of a value: \<open>split\<close> is a method of strings only, any other object
  raises \<open>AttributeError\<close>.
\<close>

fun py_kebab :: "pyval \<Rightarrow> exn + str" where
  "py_kebab (PStr s) = Inr (kebab s)"
| "py_kebab v = Inl AttributeError"

section \<open>The filename builder\<close>

text \<open>
  The two f-strings of \<open>Renamer._make_unique_filename\<close>, and the path each of them
  gives under the output directory.
\<close>

definition candidate_name :: "str \<Rightarrow> str \<Rightarrow> str \<Rightarrow> str \<Rightarrow> str" where
  "candidate_name publish_date publisher title ext =
     publish_date @ ustr ''_'' @ publisher @ ustr ''_'' @ title @ ext"

definition numbered_name :: "str \<Rightarrow> str \<Rightarrow> str \<Rightarrow> nat \<Rightarrow> str \<Rightarrow> str" where
  "numbered_name publish_date publisher title count ext =
     publish_date @ ustr ''_'' @ publisher @ ustr ''_'' @ title @ ustr ''_'' @ str_nat count @ ext"

definition base_candidate :: "path \<Rightarrow> path \<Rightarrow> str \<Rightarrow> str \<Rightarrow> str \<Rightarrow> path" where
  "base_candidate out in_path publish_date publisher title =
     joinpath out (parse_path (candidate_name publish_date publisher title (suffix_of in_path)))"

definition numbered_candidate :: "path \<Rightarrow> path \<Rightarrow> str \<Rightarrow> str \<Rightarrow> str \<Rightarrow> nat \<Rightarrow> path" where
  "numbered_candidate out in_path publish_date publisher title count =
     joinpath out (parse_path (numbered_name publish_date publisher title count (suffix_of in_path)))"

text \<open>
  The loop of \<open>_make_unique_filename\<close>. An exception of \<open>candidate.exists()\<close> is not
  caught and ends it. The loop ends because the numbered candidates are pairwise
  different and only finitely many paths exist; the termination proof stands with the
  lemmas on the candidates, in the section on the filename builder.
\<close>

function unique_loop :: "fs \<Rightarrow> path \<Rightarrow> path \<Rightarrow> str \<Rightarrow> str \<Rightarrow> str \<Rightarrow> path \<Rightarrow> nat \<Rightarrow> exn + path" where
  "unique_loop fs out in_path d p t candidate count =
     (case path_exists fs candidate of
        Inl e \<Rightarrow> Inl e
      | Inr found \<Rightarrow>
          if found
          then unique_loop fs out in_path d p t (numbered_candidate out in_path d p t count) (count + 1)
          else Inr candidate)"
  by pat_completeness auto

definition make_unique_filename :: "renamer \<Rightarrow> fs \<Rightarrow> path \<Rightarrow> str \<Rightarrow> str \<Rightarrow> str \<Rightarrow> exn + path" where
  "make_unique_filename self fs in_path publish_date publisher title =
     unique_loop fs (out_path self) in_path publish_date publisher title
       (base_candidate (out_path self) in_path publish_date publisher title) 1"

section \<open>Renaming one file and running a batch\<close>

text \<open>
  \<open>Renamer.rename\<close>, on the file system the filename builder looks at. It always returns
  a path when it returns; the caller still tests the result against \<open>None\<close>. An
  exception of the filename builder passes through.
\<close>

definition rename :: "library \<Rightarrow> renamer \<Rightarrow> fs \<Rightarrow> path \<Rightarrow> exn + path option" where
  "rename lib self fs in_path =
     (case load_first_page lib in_path of
        Inl e \<Rightarrow> Inl e
      | Inr first_page \<Rightarrow>
     (case extract_publish_date lib self first_page of
        Inl e \<Rightarrow> Inl e
      | Inr extracted \<Rightarrow>
     (let publish_date = (case extracted of None \<Rightarrow> ustr ''no-date'' | Some d \<Rightarrow> d) in
     (case extract_publisher lib self (name_of in_path) of
        Inl e \<Rightarrow> Inl e
      | Inr tp \<Rightarrow>
     (case fill_missing tp (stem_of in_path) of
        Inl e \<Rightarrow> Inl e
      | Inr (title, publisher) \<Rightarrow>
     (case py_kebab title of
        Inl e \<Rightarrow> Inl e
      | Inr title' \<Rightarrow>
     (case py_kebab publisher of
        Inl e \<Rightarrow> Inl e
      | Inr publisher' \<Rightarrow>
     (case make_unique_filename self fs in_path publish_date publisher' title' of
        Inl e \<Rightarrow> Inl e
      | Inr renamed \<Rightarrow> Inr (Some renamed)))))))))"

text \<open>
  The state of a run: the file system and the records written by the logger of \<open>run\<close>
  (the message template, or the exception passed to \<open>logger.exception\<close>).
\<close>

datatype log_entry = LogInfo str | LogError str | LogException exn

record state =
  fsys :: fs
  log :: "log_entry list"

definition add_log :: "log_entry \<Rightarrow> state \<Rightarrow> state" where
  "add_log entry st = st\<lparr>log := log st @ [entry]\<rparr>"

text \<open>
  The loop of \<open>run\<close>. The handler of the \<open>try\<close> covers the call of \<open>rename\<close> only:
  the move stands in the \<open>else\<close> branch, where an exception is not caught and ends
  the loop. The second component of the result is that exception, if any.
\<close>

fun run_files :: "library \<Rightarrow> renamer \<Rightarrow> path \<Rightarrow> path list \<Rightarrow> state \<Rightarrow> state \<times> exn option" where
  "run_files lib self output_dir [] st = (st, None)"
| "run_files lib self output_dir (file # files) st =
     (let st1 = add_log (LogInfo (ustr ''Processing file (%s / %s).'')) st in
      case rename lib self (fsys st1) file of
        Inl e \<Rightarrow> run_files lib self output_dir files (add_log (LogException e) st1)
      | Inr None \<Rightarrow> run_files lib self output_dir files st1
      | Inr (Some renamed) \<Rightarrow>
          (case os_replace (fsys st1) file (joinpath output_dir renamed) of
             Inl e \<Rightarrow> (st1, Some e)
           | Inr fs' \<Rightarrow> run_files lib self output_dir files (st1\<lparr>fsys := fs'\<rparr>)))"

text \<open>
  \<open>run\<close>: the final state, and the exit code or the exception that ended the run. The
  two tests of \<open>exists()\<close> stand outside every handler.
\<close>

definition run :: "library \<Rightarrow> path \<Rightarrow> path \<Rightarrow> str \<Rightarrow> str \<Rightarrow> state \<Rightarrow> state \<times> (exn + int)" where
  "run lib input_dir output_dir model_name date_fmt st =
     (case path_exists (fsys st) input_dir of
        Inl e \<Rightarrow> (st, Inl e)
      | Inr False \<Rightarrow> (st, Inr 0)
      | Inr True \<Rightarrow>
         (let files = glob_pdf (fsys st) input_dir in
          if files = [] then (st, Inr 0)
          else
           (case path_exists (fsys st) output_dir of
              Inl e \<Rightarrow> (st, Inl e)
            | Inr False \<Rightarrow>
                (add_log (LogError (ustr ''Output directory does not exist.'')) st, Inr 1)
            | Inr True \<Rightarrow>
               (let st1 = add_log (LogInfo (ustr ''Found (%s) files to modify.'')) st;
                    self = \<lparr> model = chat_ollama lib model_name, date_format = date_fmt,
                             out_path = output_dir \<rparr>
                in case run_files lib self output_dir files st1 of
                     (st2, Some e) \<Rightarrow> (st2, Inl e)
                   | (st2, None) \<Rightarrow>
                       (add_log (LogInfo (ustr ''Renamed (%s) files.'')) st2, Inr 0)))))"

section \<open>A concrete environment\<close>

text \<open>
  Collaborators for the concrete runs below: a parser that knows five JSON texts and
  rejects every other text, the date functions at one date, a loader that returns a
  fixed first page, and a model that answers each of the two prompts with a fixed text.
\<close>

definition demo_loads :: "str \<Rightarrow> pyval option" where
  \<open>demo_loads s =
     (if s = ustr ''{}'' then Some (PDict [])
      else if s = ustr ''{"end_date": "2025-02-10"}''
        then Some (PDict [(ustr ''end_date'', PStr (ustr ''2025-02-10''))])
      else if s = ustr ''{"publisher": "P", "title": "AC/DC"}''
        then Some (PDict [(ustr ''publisher'', PStr (ustr ''P'')), (ustr ''title'', PStr (ustr ''AC/DC''))])
      else if s = ustr ''{"publisher": "P", "title": ""}''
        then Some (PDict [(ustr ''publisher'', PStr (ustr ''P'')), (ustr ''title'', PStr [])])
      else if s = ustr ''{"title": "T"}''
        then Some (PDict [(ustr ''title'', PStr (ustr ''T''))])
      else None)\<close>

definition canned_model :: "str \<Rightarrow> str \<Rightarrow> prompt \<Rightarrow> exn + str" where
  "canned_model date_answer publisher_answer p =
     (case p of PublishDatePrompt f t \<Rightarrow> Inr date_answer | PublisherPrompt n \<Rightarrow> Inr publisher_answer)"

definition demo_lib :: "(prompt \<Rightarrow> exn + str) \<Rightarrow> library" where
  "demo_lib m =
     \<lparr> chat_ollama = (\<lambda>name. m),
       json_loads = demo_loads,
       fromisoformat = (\<lambda>s. if s = ustr ''2025-02-10'' then Some (Date 2025 2 10) else None),
       strftime = (\<lambda>d f. if d = Date 2025 2 10 \<and> f = ustr ''%Y%m%d'' then ustr ''20250210'' else []),
       load_first_page = (\<lambda>p. Inr (ustr ''Feb. 10, 2025'')) \<rparr>"

text \<open>
  Two concrete batches under \<open>/in\<close> with the output directory \<open>/out\<close>. In the first the
  model answers the date prompt with text that is not JSON. In the second it names a
  title with a slash, so that the new name lies in a directory that does not exist.
\<close>

definition batch_fs :: fs where
  "batch_fs =
     [(Path True [ustr ''in''], Dir),
      (Path True [ustr ''in'', ustr ''a.pdf''], File (ustr ''A'')),
      (Path True [ustr ''in'', ustr ''b.pdf''], File (ustr ''B'')),
      (Path True [ustr ''out''], Dir)]"

definition garbled_model :: "prompt \<Rightarrow> exn + str" where
  "garbled_model = canned_model (ustr ''Sorry, I see no date.'') (ustr ''{}'')"

definition slash_model :: "prompt \<Rightarrow> exn + str" where
  \<open>slash_model = canned_model (ustr ''{}'') (ustr ''{"publisher": "P", "title": "AC/DC"}'')\<close>

definition renamer_of :: "(prompt \<Rightarrow> exn + str) \<Rightarrow> path \<Rightarrow> renamer" where
  "renamer_of m out = \<lparr> model = m, date_format = ustr ''%Y%m%d'', out_path = out \<rparr>"

text \<open>
  A batch with the relative output directory \<open>out\<close>, which holds a directory \<open>out\<close> of
  its own with a file in it; the model answers both prompts with an empty JSON object.
\<close>

definition rel_fs :: fs where
  "rel_fs =
     [(Path False [ustr ''in''], Dir),
      (Path False [ustr ''in'', ustr ''a.pdf''], File (ustr ''A'')),
      (Path False [ustr ''out''], Dir),
      (Path False [ustr ''out'', ustr ''out''], Dir),
      (Path False [ustr ''out'', ustr ''out'', ustr ''no-date_no-publisher_a.pdf''], File (ustr ''OLD''))]"


definition empty_model :: "prompt \<Rightarrow> exn + str" where
  "empty_model = canned_model (ustr ''{}'') (ustr ''{}'')"

section \<open>Kebab-casing\<close>

lemma split_ws_Nil:
  assumes "dropWhile isspace s = []"
  shows "split_ws s = []"
  by (subst split_ws.simps) (simp only: assms list.case)

lemma split_ws_Cons:
  assumes "dropWhile isspace s = c # cs"
  shows "split_ws s = (c # takeWhile (\<lambda>x. \<not> isspace x) cs) # split_ws (dropWhile (\<lambda>x. \<not> isspace x) cs)"
  by (subst split_ws.simps) (simp only: assms list.case)

lemma split_ws_all_space: "\<forall>c\<in>set w. isspace c \<Longrightarrow> split_ws (w @ s) = split_ws s"
proof -
  assume "\<forall>c\<in>set w. isspace c"
  then have "dropWhile isspace (w @ s) = dropWhile isspace s"
    by (simp add: dropWhile_append2)
  then show ?thesis
    by (subst split_ws.simps, subst (2) split_ws.simps) (simp only:)
qed

lemma split_ws_token:
  assumes "t \<noteq> []" "\<forall>c\<in>set t. \<not> isspace c"
  shows "split_ws t = [t]"
proof -
  obtain c cs where t: "t = c # cs" using assms(1) by (cases t) auto
  have d: "dropWhile isspace t = c # cs" using assms(2) t by simp
  have tk: "takeWhile (\<lambda>x. \<not> isspace x) cs = cs" using assms(2) t by (simp add: takeWhile_eq_all_conv)
  have dr: "dropWhile (\<lambda>x. \<not> isspace x) cs = []" using assms(2) t by simp
  have e: "split_ws [] = []" by (rule split_ws_Nil) simp
  show ?thesis using split_ws_Cons [OF d] by (simp add: tk dr e t)
qed

lemma dropWhile_Cons_head: "dropWhile P s = c # cs \<Longrightarrow> \<not> P c"
  using hd_dropWhile [of P s] by simp

lemma takeWhile_all: "x \<in> set (takeWhile P xs) \<Longrightarrow> P x"
  by (rule set_takeWhileD [THEN conjunct2])

lemma split_ws_tokens:
  "w \<in> set (split_ws s) \<Longrightarrow> w \<noteq> [] \<and> (\<forall>c\<in>set w. \<not> isspace c)"
proof (induction s rule: split_ws.induct)
  case (1 s)
  show ?case
  proof (cases "dropWhile isspace s")
    case Nil
    have "split_ws s = []" using Nil by (rule split_ws_Nil)
    with "1.prems" show ?thesis by simp
  next
    case (Cons c cs)
    have c: "\<not> isspace c" using Cons by (rule dropWhile_Cons_head)
    have "w \<in> set ((c # takeWhile (\<lambda>x. \<not> isspace x) cs) # split_ws (dropWhile (\<lambda>x. \<not> isspace x) cs))"
      using "1.prems" split_ws_Cons [OF Cons] by simp
    then have
      "w = c # takeWhile (\<lambda>x. \<not> isspace x) cs \<or> w \<in> set (split_ws (dropWhile (\<lambda>x. \<not> isspace x) cs))"
      by simp
    then show ?thesis
    proof
      assume w: "w = c # takeWhile (\<lambda>x. \<not> isspace x) cs"
      have "\<forall>x\<in>set (takeWhile (\<lambda>x. \<not> isspace x) cs). \<not> isspace x"
        using takeWhile_all [of _ "\<lambda>x. \<not> isspace x" cs] by blast
      then show ?thesis using c w by simp
    next
      assume "w \<in> set (split_ws (dropWhile (\<lambda>x. \<not> isspace x) cs))"
      then show ?thesis by (rule "1.IH" [OF Cons])
    qed
  qed
qed

lemma split_ws_append:
  assumes r: "r \<noteq> []" "\<forall>c\<in>set r. isspace c"
  shows "split_ws (a @ r @ b) = split_ws a @ split_ws b"
proof (induction a rule: split_ws.induct)
  case (1 s)
  obtain x xs where rx: "r = x # xs" using r(1) by (cases r) auto
  have x: "isspace x" using r(2) rx by simp
  show ?case
  proof (cases "dropWhile isspace s")
    case Nil
    then have all: "\<forall>c\<in>set s. isspace c" by (simp add: dropWhile_eq_Nil_conv)
    have "split_ws s = []" using Nil by (rule split_ws_Nil)
    moreover have "split_ws (s @ r @ b) = split_ws (r @ b)" by (rule split_ws_all_space [OF all])
    moreover have "split_ws (r @ b) = split_ws b" by (rule split_ws_all_space [OF r(2)])
    ultimately show ?thesis by simp
  next
    case (Cons c cs)
    have ex: "\<exists>y\<in>set s. \<not> isspace y"
    proof (rule ccontr)
      assume "\<not> (\<exists>y\<in>set s. \<not> isspace y)"
      then have "dropWhile isspace s = []" by simp
      with Cons show False by simp
    qed
    have d: "dropWhile isspace (s @ r @ b) = c # cs @ r @ b"
      using Cons ex by (auto simp: dropWhile_append)
    let ?P = "\<lambda>x. \<not> isspace x"
    have IH: "split_ws (dropWhile ?P cs @ r @ b) = split_ws (dropWhile ?P cs) @ split_ws b"
      using "1.IH" [OF Cons] .
    show ?thesis
    proof (cases "\<forall>y\<in>set cs. ?P y")
      case True
      have tk: "takeWhile ?P (cs @ r @ b) = cs" using True x rx by (simp add: takeWhile_append2)
      have dr: "dropWhile ?P (cs @ r @ b) = r @ b" using True x rx by (simp add: dropWhile_append2)
      have tk0: "takeWhile ?P cs = cs" using True by (simp add: takeWhile_eq_all_conv)
      have dr0: "dropWhile ?P cs = []" using True by simp
      have e: "split_ws [] = []" by (rule split_ws_Nil) simp
      have "split_ws (s @ r @ b) = (c # cs) # split_ws (r @ b)"
        using split_ws_Cons [OF d] by (simp add: tk dr)
      moreover have "split_ws s = [c # cs]"
        using split_ws_Cons [OF Cons] by (simp add: tk0 dr0 e)
      moreover have "split_ws (r @ b) = split_ws b" by (rule split_ws_all_space [OF r(2)])
      ultimately show ?thesis by simp
    next
      case False
      then have ex2: "\<exists>y\<in>set cs. \<not> ?P y" by blast
      have tk: "takeWhile ?P (cs @ r @ b) = takeWhile ?P cs" using ex2 by (auto simp: takeWhile_append)
      have dr: "dropWhile ?P (cs @ r @ b) = dropWhile ?P cs @ r @ b" using ex2 by (auto simp: dropWhile_append)
      have "split_ws (s @ r @ b) = (c # takeWhile ?P cs) # split_ws (dropWhile ?P cs @ r @ b)"
        using split_ws_Cons [OF d] by (simp add: tk dr)
      moreover have "split_ws s = (c # takeWhile ?P cs) # split_ws (dropWhile ?P cs)"
        by (rule split_ws_Cons [OF Cons])
      ultimately show ?thesis using IH by simp
    qed
  qed
qed

lemma split_ws_nonempty: "\<exists>c\<in>set a. \<not> isspace c \<Longrightarrow> split_ws a \<noteq> []"
proof -
  assume "\<exists>c\<in>set a. \<not> isspace c"
  then have "dropWhile isspace a \<noteq> []" by (simp add: dropWhile_eq_Nil_conv)
  then show ?thesis by (cases "dropWhile isspace a") (simp_all add: split_ws_Cons)
qed

lemma filter_takeWhile_neg: "filter (\<lambda>x. \<not> P x) (takeWhile P xs) = []"
  by (induction xs) simp_all

lemma filter_takeWhile_same: "filter P (takeWhile P xs) = takeWhile P xs"
  by (induction xs) simp_all

lemma filter_split_dropWhile:
  "filter Q xs = filter Q (takeWhile P xs) @ filter Q (dropWhile P xs)"
proof -
  have "filter Q (takeWhile P xs @ dropWhile P xs) = filter Q (takeWhile P xs) @ filter Q (dropWhile P xs)"
    by (rule filter_append)
  then show ?thesis by simp
qed

lemma concat_split_ws: "concat (split_ws s) = filter (\<lambda>c. \<not> isspace c) s"
proof (induction s rule: split_ws.induct)
  case (1 s)
  let ?P = "\<lambda>x. \<not> isspace x"
  have fs: "filter ?P s = filter ?P (dropWhile isspace s)"
    using filter_split_dropWhile [of ?P s isspace] by (simp add: filter_takeWhile_neg)
  show ?case
  proof (cases "dropWhile isspace s")
    case Nil
    then show ?thesis using fs by (simp add: split_ws_Nil)
  next
    case (Cons c cs)
    have c: "?P c" using Cons by (rule dropWhile_Cons_head)
    have "filter ?P cs = takeWhile ?P cs @ filter ?P (dropWhile ?P cs)"
      using filter_split_dropWhile [of ?P cs ?P] by (simp add: filter_takeWhile_same)
    then have "filter ?P s = c # takeWhile ?P cs @ filter ?P (dropWhile ?P cs)"
      using fs Cons c by simp
    then show ?thesis using "1.IH" [OF Cons] by (simp add: split_ws_Cons [OF Cons])
  qed
qed

lemma join_append:
  "A \<noteq> [] \<Longrightarrow> B \<noteq> [] \<Longrightarrow> join sep (A @ B) = join sep A @ sep @ join sep B"
proof (induction sep A rule: join.induct)
  case (2 sep w)
  then show ?case by (cases B) simp_all
qed simp_all

lemma set_join: "set (join sep ws) \<subseteq> set sep \<union> \<Union> (set ` set ws)"
  by (induction sep ws rule: join.induct) auto

lemma subseq_concat_join: "subseq (concat ws) (join sep ws)"
proof (induction sep ws rule: join.induct)
  case (3 sep w v ws)
  have "subseq (concat (v # ws)) (sep @ join sep (v # ws))"
    using 3 by (rule list_emb_append2)
  then have "subseq (w @ concat (v # ws)) (w @ sep @ join sep (v # ws))"
    by (simp add: subseq_append')
  then show ?case by simp
qed simp_all

lemma isspace_hyphen: "\<not> isspace (of_char CHR ''-'')"
  by (simp add: isspace_def)

lemma split_ws_filter: "filter (\<lambda>w. w \<noteq> []) (split_ws s) = split_ws s"
  using split_ws_tokens [of _ s] by (simp add: filter_id_conv)

lemma kebab_eq: "kebab s = join (ustr ''-'') (split_ws s)"
  by (simp add: kebab_def split_ws_filter)

lemma kebab_no_space: "c \<in> set (kebab s) \<Longrightarrow> \<not> isspace c"
proof -
  assume "c \<in> set (kebab s)"
  then have "c \<in> set (ustr ''-'') \<union> \<Union> (set ` set (split_ws s))"
    using set_join [of "ustr ''-''" "split_ws s"] by (auto simp: kebab_eq)
  then show ?thesis
  proof
    assume "c \<in> set (ustr ''-'')"
    then have "c = of_char CHR ''-''" by (simp add: ustr_def)
    then show ?thesis using isspace_hyphen by simp
  next
    assume "c \<in> \<Union> (set ` set (split_ws s))"
    then obtain w where "w \<in> set (split_ws s)" "c \<in> set w" by blast
    then show ?thesis using split_ws_tokens [of w s] by blast
  qed
qed

lemma kebab_id: "\<forall>c\<in>set s. \<not> isspace c \<Longrightarrow> kebab s = s"
proof (cases "s = []")
  case True
  have "split_ws [] = []" by (rule split_ws_Nil) simp
  then show ?thesis using True by (simp add: kebab_eq)
next
  case False
  assume "\<forall>c\<in>set s. \<not> isspace c"
  then have "split_ws s = [s]" using False by (simp add: split_ws_token)
  then show ?thesis by (simp add: kebab_eq)
qed

lemma kebab_idem: "kebab (kebab s) = kebab s"
  by (rule kebab_id) (simp add: kebab_no_space)

lemma kebab_run:
  assumes "r \<noteq> []" "\<forall>c\<in>set r. isspace c" "\<exists>c\<in>set a. \<not> isspace c" "\<exists>c\<in>set b. \<not> isspace c"
  shows "kebab (a @ r @ b) = kebab a @ ustr ''-'' @ kebab b"
proof -
  have "split_ws (a @ r @ b) = split_ws a @ split_ws b"
    using assms(1,2) by (rule split_ws_append)
  moreover have "split_ws a \<noteq> []" using assms(3) by (rule split_ws_nonempty)
  moreover have "split_ws b \<noteq> []" using assms(4) by (rule split_ws_nonempty)
  ultimately show ?thesis by (simp add: kebab_eq join_append)
qed

lemma kebab_edges:
  assumes "\<forall>c\<in>set r. isspace c"
  shows "kebab (r @ s) = kebab s"
  using assms by (simp add: kebab_eq split_ws_all_space)

lemma kebab_subseq: "subseq (filter (\<lambda>c. \<not> isspace c) s) (kebab s)"
  using subseq_concat_join [of "split_ws s" "ustr ''-''"] by (simp add: kebab_eq concat_split_ws)

text \<open>
  Claim C8. Kebab-casing is idempotent; it is the identity on a string without
  whitespace; a whitespace run between two parts that both hold a non-whitespace
  character becomes exactly one hyphen between their kebab-casings; the other characters
  of the input appear in the result unchanged and in their order, and no whitespace is
  left.
\<close>

theorem kebab_idempotent_collapses_runs:
  "kebab (kebab s) = kebab s
   \<and> ((\<forall>c\<in>set s. \<not> isspace c) \<longrightarrow> kebab s = s)
   \<and> (r \<noteq> [] \<and> (\<forall>c\<in>set r. isspace c) \<and> (\<exists>c\<in>set a. \<not> isspace c) \<and> (\<exists>c\<in>set b. \<not> isspace c)
        \<longrightarrow> kebab (a @ r @ b) = kebab a @ ustr ''-'' @ kebab b)
   \<and> subseq (filter (\<lambda>c. \<not> isspace c) s) (kebab s)
   \<and> (\<forall>c\<in>set (kebab s). \<not> isspace c)"
proof (intro conjI impI)
  show "kebab (kebab s) = kebab s" by (rule kebab_idem)
next
  assume "\<forall>c\<in>set s. \<not> isspace c"
  then show "kebab s = s" by (rule kebab_id)
next
  assume h: "r \<noteq> [] \<and> (\<forall>c\<in>set r. isspace c) \<and> (\<exists>c\<in>set a. \<not> isspace c) \<and> (\<exists>c\<in>set b. \<not> isspace c)"
  show "kebab (a @ r @ b) = kebab a @ ustr ''-'' @ kebab b"
    by (rule kebab_run) (use h in blast)+
next
  show "subseq (filter (\<lambda>c. \<not> isspace c) s) (kebab s)" by (rule kebab_subseq)
next
  show "\<forall>c\<in>set (kebab s). \<not> isspace c" using kebab_no_space by blast
qed

theorem kebab_idempotent_collapses_runs_witness:
  "kebab (kebab (ustr ''The  New York'')) = kebab (ustr ''The  New York'')
   \<and> kebab (ustr ''a,b'') = ustr ''a,b''
   \<and> kebab (ustr ''The'' @ ustr ''  '' @ ustr ''New York'') = kebab (ustr ''The'') @ ustr ''-'' @ kebab (ustr ''New York'')
   \<and> kebab (ustr ''The  New York'') = ustr ''The-New-York''"
proof -
  have sp: "isspace 32" by (simp add: isspace_def)
  have ns: "\<not> isspace 44" "\<not> isspace 97" "\<not> isspace 98" "\<not> isspace 84" "\<not> isspace 78"
    by (simp_all add: isspace_def)
  have 1: "kebab (ustr ''a,b'') = ustr ''a,b''"
    using kebab_idempotent_collapses_runs [of "ustr ''a,b''" "[]" "[]" "[]"] ns
    by (simp add: ustr_def)
  have 2: "kebab (ustr ''The'' @ ustr ''  '' @ ustr ''New York'')
           = kebab (ustr ''The'') @ ustr ''-'' @ kebab (ustr ''New York'')"
    using kebab_idempotent_collapses_runs [of "[]" "ustr ''  ''" "ustr ''The''" "ustr ''New York''"] sp ns
    by (simp add: ustr_def)
  have 3: "kebab (kebab (ustr ''The  New York'')) = kebab (ustr ''The  New York'')"
    using kebab_idempotent_collapses_runs [of "ustr ''The  New York''" "[]" "[]" "[]"] by blast
  have 4: "kebab (ustr ''The  New York'') = ustr ''The-New-York''"
    by (simp add: kebab_def ustr_def split_ws.simps isspace_def)
  show ?thesis using 1 2 3 4 by blast
qed

section \<open>The heuristic splitter\<close>

lemma rsplit1_none: "sep \<notin> set s \<Longrightarrow> rsplit1 sep s = [s]"
  by (simp add: rsplit1_def)

lemma rsplit1_last:
  assumes "sep \<notin> set b"
  shows "rsplit1 sep (a @ sep # b) = [a, b]"
proof -
  have tk: "takeWhile (\<lambda>c. c \<noteq> sep) (rev b @ sep # rev a) = rev b"
    using assms by (auto simp: takeWhile_append)
  have dr: "dropWhile (\<lambda>c. c \<noteq> sep) (rev b @ sep # rev a) = sep # rev a"
    using assms by (auto simp: dropWhile_append)
  show ?thesis by (simp add: rsplit1_def tk dr)
qed

lemma last_occurrence:
  assumes "sep \<in> set s"
  shows "\<exists>a b. s = a @ sep # b \<and> sep \<notin> set b"
  using assms by (rule split_list_last)

lemma split_at_underscore:
  assumes "of_char CHR ''_'' \<notin> set b"
  shows "split_publisher_and_title (a @ of_char CHR ''_'' # b) = Inr (strip a, strip b)"
  using rsplit1_last [OF assms, of a] by (simp add: split_publisher_and_title_def)

lemma split_at_hyphen:
  assumes "of_char CHR ''_'' \<notin> set a" "of_char CHR ''_'' \<notin> set b" "of_char CHR ''-'' \<notin> set b"
  shows "split_publisher_and_title (a @ of_char CHR ''-'' # b) = Inr (strip a, strip b)"
proof -
  have "of_char CHR ''_'' \<notin> set (a @ of_char CHR ''-'' # b)" using assms(1,2) by simp
  then have u: "rsplit1 (of_char CHR ''_'') (a @ of_char CHR ''-'' # b) = [a @ of_char CHR ''-'' # b]"
    by (rule rsplit1_none)
  show ?thesis
    using rsplit1_last [OF assms(3), of a] u by (simp add: split_publisher_and_title_def)
qed

lemma split_no_separator:
  assumes "of_char CHR ''_'' \<notin> set s" "of_char CHR ''-'' \<notin> set s"
  shows "split_publisher_and_title s = Inr (strip s, ustr ''no-publisher'')"
  using rsplit1_none [OF assms(1)] rsplit1_none [OF assms(2)]
  by (simp add: split_publisher_and_title_def)

lemma split_total: "\<exists>t p. split_publisher_and_title s = Inr (t, p)"
proof -
  let ?u = "of_char CHR ''_'' :: nat" and ?h = "of_char CHR ''-'' :: nat"
  consider (u) "?u \<in> set s" | (h) "?u \<notin> set s" "?h \<in> set s" | (n) "?u \<notin> set s" "?h \<notin> set s"
    by blast
  then show ?thesis
  proof cases
    case u
    obtain a b where s: "s = a @ ?u # b" and b: "?u \<notin> set b"
      using last_occurrence [OF u] by blast
    have "split_publisher_and_title s = Inr (strip a, strip b)"
      unfolding s using b by (rule split_at_underscore)
    then show ?thesis by (intro exI)
  next
    case h
    obtain a b where s: "s = a @ ?h # b" and b: "?h \<notin> set b"
      using last_occurrence [OF h(2)] by blast
    have ua: "?u \<notin> set a" and ub: "?u \<notin> set b" using h(1) unfolding s by simp_all
    have "split_publisher_and_title s = Inr (strip a, strip b)"
      unfolding s using ua ub b by (rule split_at_hyphen)
    then show ?thesis by (intro exI)
  next
    case n
    have "split_publisher_and_title s = Inr (strip s, ustr ''no-publisher'')"
      using n by (rule split_no_separator)
    then show ?thesis by (intro exI)
  qed
qed

lemma strip_all_space:
  assumes "\<forall>c\<in>set s. isspace c"
  shows "strip s = []"
proof -
  have d: "dropWhile isspace s = []" using assms by simp
  show ?thesis by (simp only: strip_def d rev.simps dropWhile.simps)
qed

text \<open>
  Claim C6, as the code has it. For a stem without underscore and without hyphen the
  splitter returns the publisher \<open>no-publisher\<close> and, as title, the stem with its
  leading and trailing whitespace removed.
\<close>

theorem split_without_separator:
  assumes "of_char CHR ''_'' \<notin> set stem" and "of_char CHR ''-'' \<notin> set stem"
  shows "split_publisher_and_title stem = Inr (strip stem, ustr ''no-publisher'')"
  using assms by (rule split_no_separator)

theorem split_without_separator_witness:
  "split_publisher_and_title (ustr '' report 2025'') = Inr (ustr ''report 2025'', ustr ''no-publisher'')"
proof -
  have "split_publisher_and_title (ustr '' report 2025'')
        = Inr (strip (ustr '' report 2025''), ustr ''no-publisher'')"
    by (rule split_without_separator) (simp_all add: ustr_def)
  moreover have "strip (ustr '' report 2025'') = ustr ''report 2025''"
    by (simp add: strip_def ustr_def isspace_def)
  ultimately show ?thesis by simp
qed

text \<open>
  The claim as the specification words it (the title is the full stem, unchanged) fails
  for a stem that starts with a blank.
\<close>

theorem split_title_unchanged_counterexample:
  "of_char CHR ''_'' \<notin> set (ustr '' a'') \<and> of_char CHR ''-'' \<notin> set (ustr '' a'')
   \<and> split_publisher_and_title (ustr '' a'') = Inr (ustr ''a'', ustr ''no-publisher'')
   \<and> split_publisher_and_title (ustr '' a'') \<noteq> Inr (ustr '' a'', ustr ''no-publisher'')"
  by (simp add: split_publisher_and_title_def rsplit1_def strip_def ustr_def isspace_def)

text \<open>
  Claim C7. A stem with an underscore is split at the last underscore: the title is the
  text before it, the publisher the text after it, both stripped; hyphens play no part.
\<close>

theorem split_at_last_underscore:
  assumes "of_char CHR ''_'' \<in> set stem"
  shows "(\<exists>a b. stem = a @ ustr ''_'' @ b \<and> of_char CHR ''_'' \<notin> set b)
         \<and> (\<forall>a b. stem = a @ ustr ''_'' @ b \<and> of_char CHR ''_'' \<notin> set b
                \<longrightarrow> split_publisher_and_title stem = Inr (strip a, strip b))"
proof
  show "\<exists>a b. stem = a @ ustr ''_'' @ b \<and> of_char CHR ''_'' \<notin> set b"
    using last_occurrence [OF assms] by (simp add: ustr_def)
next
  show "\<forall>a b. stem = a @ ustr ''_'' @ b \<and> of_char CHR ''_'' \<notin> set b
          \<longrightarrow> split_publisher_and_title stem = Inr (strip a, strip b)"
    using split_at_underscore by (simp add: ustr_def)
qed

theorem split_at_last_underscore_witness:
  "split_publisher_and_title (ustr ''A - B_C _ WIRED'') = Inr (ustr ''A - B_C'', ustr ''WIRED'')"
proof -
  have m: "of_char CHR ''_'' \<in> set (ustr ''A - B_C _ WIRED'')" by (simp add: ustr_def)
  have d: "ustr ''A - B_C _ WIRED'' = ustr ''A - B_C '' @ ustr ''_'' @ ustr '' WIRED''
           \<and> of_char CHR ''_'' \<notin> set (ustr '' WIRED'')"
    by (simp add: ustr_def)
  have "split_publisher_and_title (ustr ''A - B_C _ WIRED'')
        = Inr (strip (ustr ''A - B_C ''), strip (ustr '' WIRED''))"
    using split_at_last_underscore [OF m] d by blast
  moreover have "strip (ustr ''A - B_C '') = ustr ''A - B_C''" "strip (ustr '' WIRED'') = ustr ''WIRED''"
    by (simp_all add: strip_def ustr_def isspace_def)
  ultimately show ?thesis by simp
qed

section \<open>Extraction\<close>

lemma invoke_model_malformed:
  assumes "model self p = Inr content" and "json_loads lib content = None"
  shows "invoke_model lib self p = Inr PNone"
  using assms by (simp add: invoke_model_def)

lemma invoke_model_parsed:
  assumes "model self p = Inr content" and "json_loads lib content = Some answer"
  shows "invoke_model lib self p = Inr answer"
  using assms by (simp add: invoke_model_def)

lemma has_value_None: "has_value k PNone = Inl TypeError"
  by (simp add: has_value_def)

lemma has_value_dict:
  "has_value k (PDict d) = Inr (case map_of d k of None \<Rightarrow> False | Some v \<Rightarrow> truthy v)"
  by (simp add: has_value_def split: option.splits)

text \<open>
  What \<open>_extract_publish_date\<close> does with a JSON object: no date for a missing or
  falsy \<open>end_date\<close> and for a string that is not an ISO date, the reformatted date for
  a string that is one, and a \<open>TypeError\<close> for a truthy \<open>end_date\<close> that is no
  string.
\<close>

lemma extract_publish_date_object:
  assumes "invoke_model lib self (PublishDatePrompt (ustr ''YYYY-MM-DD'') text) = Inr (PDict d)"
  shows "extract_publish_date lib self text =
           (case map_of d (ustr ''end_date'') of
              None \<Rightarrow> Inr None
            | Some v \<Rightarrow>
                if \<not> truthy v then Inr None
                else (case v of
                        PStr s \<Rightarrow> (case fromisoformat lib s of
                                     None \<Rightarrow> Inr None
                                   | Some dt \<Rightarrow> Inr (Some (strftime lib dt (date_format self))))
                      | _ \<Rightarrow> Inl TypeError))"
  unfolding extract_publish_date_def assms
  by (simp add: has_value_dict split: option.splits pyval.splits)

lemma extract_field_shape:
  assumes "extract_field k answer = Inr v"
  shows "v = PNone \<or> truthy v"
proof (cases "has_value k answer")
  case (Inl e)
  with assms show ?thesis by (simp add: extract_field_def)
next
  case (Inr b)
  show ?thesis
  proof (cases b)
    case False
    with Inr assms show ?thesis by (simp add: extract_field_def)
  next
    case True
    have g: "py_getitem answer k = Inr v" using assms Inr True by (simp add: extract_field_def)
    have "has_value k answer = Inr (truthy v)"
      using Inr True g by (auto simp: has_value_def split: sum.splits bool.splits)
    then show ?thesis using Inr True by simp
  qed
qed

lemma extract_publisher_shape:
  assumes "extract_publisher lib self filename = Inr (title, publisher)"
  shows "(title = PNone \<or> truthy title) \<and> (publisher = PNone \<or> truthy publisher)"
proof -
  obtain answer where
    p: "extract_field (ustr ''publisher'') answer = Inr publisher" and
    t: "extract_field (ustr ''title'') answer = Inr title"
    using assms by (auto simp: extract_publisher_def split: sum.splits)
  show ?thesis using extract_field_shape [OF p] extract_field_shape [OF t] by blast
qed

lemma py_or_truthy: "truthy a \<Longrightarrow> py_or a b = a"
  by (simp add: py_or_def)

lemma py_or_None: "py_or PNone b = b"
  by (simp add: py_or_def)

text \<open>
  Claim C1 on the code. When the text of the model's answer is not JSON,
  \<open>_invoke_model\<close> returns \<open>None\<close> and the membership test of
  \<open>_extract_publish_date\<close> on it raises \<open>TypeError\<close>: the method does not return.
\<close>

theorem malformed_json_raises_type_error:
  assumes "model self (PublishDatePrompt (ustr ''YYYY-MM-DD'') text) = Inr content"
      and "json_loads lib content = None"
  shows "extract_publish_date lib self text = Inl TypeError"
  using invoke_model_malformed [OF assms]
  by (simp add: extract_publish_date_def has_value_None)

theorem malformed_json_raises_type_error_witness:
  \<open>extract_publish_date
      (demo_lib (canned_model (ustr ''Sorry, I see no date.'') (ustr ''{}'')))
      \<lparr> model = canned_model (ustr ''Sorry, I see no date.'') (ustr ''{}''),
        date_format = ustr ''%Y%m%d'', out_path = Path True [ustr ''out''] \<rparr>
      (ustr ''Feb. 10, 2025'')
    = Inl TypeError\<close>
  by (rule malformed_json_raises_type_error [where content = "ustr ''Sorry, I see no date.''"])
     (simp_all add: canned_model_def demo_lib_def demo_loads_def ustr_def)

text \<open>
  Claim C9. For a pair \<open>(title, publisher)\<close> returned by the model-based extraction:
  with both fields present the pair is used as it is, whatever the stem; otherwise the
  splitter's title replaces a missing title only and the splitter's publisher a missing
  publisher only. The splitter always returns a pair.
\<close>

theorem fallback_fills_only_missing_fields:
  assumes "extract_publisher lib self filename = Inr (title, publisher)"
  shows "(title \<noteq> PNone \<and> publisher \<noteq> PNone
            \<longrightarrow> fill_missing (title, publisher) stem = Inr (title, publisher))
         \<and> (\<exists>h_title h_publisher. split_publisher_and_title stem = Inr (h_title, h_publisher))
         \<and> (\<forall>h_title h_publisher.
               split_publisher_and_title stem = Inr (h_title, h_publisher) \<longrightarrow>
                 (title = PNone \<and> publisher \<noteq> PNone
                    \<longrightarrow> fill_missing (title, publisher) stem = Inr (PStr h_title, publisher))
               \<and> (title \<noteq> PNone \<and> publisher = PNone
                    \<longrightarrow> fill_missing (title, publisher) stem = Inr (title, PStr h_publisher))
               \<and> (title = PNone \<and> publisher = PNone
                    \<longrightarrow> fill_missing (title, publisher) stem = Inr (PStr h_title, PStr h_publisher)))"
proof -
  have sh: "(title = PNone \<or> truthy title) \<and> (publisher = PNone \<or> truthy publisher)"
    using assms by (rule extract_publisher_shape)
  have 1: "title \<noteq> PNone \<and> publisher \<noteq> PNone
            \<longrightarrow> fill_missing (title, publisher) stem = Inr (title, publisher)"
    by (simp add: fill_missing_def)
  have 2: "\<exists>h_title h_publisher. split_publisher_and_title stem = Inr (h_title, h_publisher)"
    by (rule split_total)
  have 3: "\<forall>h_title h_publisher.
               split_publisher_and_title stem = Inr (h_title, h_publisher) \<longrightarrow>
                 (title = PNone \<and> publisher \<noteq> PNone
                    \<longrightarrow> fill_missing (title, publisher) stem = Inr (PStr h_title, publisher))
               \<and> (title \<noteq> PNone \<and> publisher = PNone
                    \<longrightarrow> fill_missing (title, publisher) stem = Inr (title, PStr h_publisher))
               \<and> (title = PNone \<and> publisher = PNone
                    \<longrightarrow> fill_missing (title, publisher) stem = Inr (PStr h_title, PStr h_publisher))"
    using sh by (auto simp: fill_missing_def py_or_truthy py_or_None)
  show ?thesis using 1 2 3 by blast
qed

theorem fallback_fills_only_missing_fields_witness:
  \<open>fill_missing (PNone, PNone) (ustr ''a - b'') = Inr (PStr (ustr ''a''), PStr (ustr ''b''))
   \<and> fill_missing (PNone, PStr (ustr ''P'')) (ustr ''a - b'') = Inr (PStr (ustr ''a''), PStr (ustr ''P''))
   \<and> fill_missing (PStr (ustr ''T''), PNone) (ustr ''a - b'') = Inr (PStr (ustr ''T''), PStr (ustr ''b''))
   \<and> fill_missing (PStr (ustr ''AC/DC''), PStr (ustr ''P'')) (ustr ''a - b'')
       = Inr (PStr (ustr ''AC/DC''), PStr (ustr ''P''))\<close>
proof -
  let ?self = "\<lambda>m. \<lparr> model = m, date_format = ustr ''%Y%m%d'', out_path = Path True [ustr ''out''] \<rparr>"
  let ?m0 = \<open>canned_model (ustr ''{}'') (ustr ''{}'')\<close>
  let ?m1 = \<open>canned_model (ustr ''{}'') (ustr ''{"publisher": "P", "title": ""}'')\<close>
  let ?m2 = \<open>canned_model (ustr ''{}'') (ustr ''{"title": "T"}'')\<close>
  let ?m3 = \<open>canned_model (ustr ''{}'') (ustr ''{"publisher": "P", "title": "AC/DC"}'')\<close>
  note defs = extract_publisher_def invoke_model_def canned_model_def demo_lib_def
          demo_loads_def extract_field_def has_value_def ustr_def
  have e0: "extract_publisher (demo_lib ?m0) (?self ?m0) (ustr ''a - b.pdf'') = Inr (PNone, PNone)"
    by (simp add: defs)
  have e1: "extract_publisher (demo_lib ?m1) (?self ?m1) (ustr ''a - b.pdf'')
            = Inr (PNone, PStr (ustr ''P''))"
    by (simp add: defs)
  have e2: "extract_publisher (demo_lib ?m2) (?self ?m2) (ustr ''a - b.pdf'')
            = Inr (PStr (ustr ''T''), PNone)"
    by (simp add: defs)
  have e3: "extract_publisher (demo_lib ?m3) (?self ?m3) (ustr ''a - b.pdf'')
            = Inr (PStr (ustr ''AC/DC''), PStr (ustr ''P''))"
    by (simp add: defs)
  have s: "split_publisher_and_title (ustr ''a - b'') = Inr (ustr ''a'', ustr ''b'')"
    by (simp add: split_publisher_and_title_def rsplit1_def strip_def ustr_def isspace_def)
  have 0: "fill_missing (PNone, PNone) (ustr ''a - b'') = Inr (PStr (ustr ''a''), PStr (ustr ''b''))"
    using fallback_fills_only_missing_fields [OF e0, of "ustr ''a - b''"] s by blast
  have 1: "fill_missing (PNone, PStr (ustr ''P'')) (ustr ''a - b'') = Inr (PStr (ustr ''a''), PStr (ustr ''P''))"
    using fallback_fills_only_missing_fields [OF e1, of "ustr ''a - b''"] s by blast
  have 2: "fill_missing (PStr (ustr ''T''), PNone) (ustr ''a - b'') = Inr (PStr (ustr ''T''), PStr (ustr ''b''))"
    using fallback_fills_only_missing_fields [OF e2, of "ustr ''a - b''"] s by blast
  have 3: "fill_missing (PStr (ustr ''AC/DC''), PStr (ustr ''P'')) (ustr ''a - b'')
       = Inr (PStr (ustr ''AC/DC''), PStr (ustr ''P''))"
    using fallback_fills_only_missing_fields [OF e3, of "ustr ''a - b''"] by blast
  show ?thesis using 0 1 2 3 by blast
qed

section \<open>The filename builder\<close>

lemma str_nat_small: "n < 10 \<Longrightarrow> str_nat n = [of_char CHR ''0'' + n]"
  by (subst str_nat.simps) simp

lemma str_nat_large:
  "\<not> n < 10 \<Longrightarrow> str_nat n = str_nat (n div 10) @ [of_char CHR ''0'' + n mod 10]"
  by (subst str_nat.simps) simp

lemma str_nat_nonempty: "str_nat n \<noteq> []"
  by (cases "n < 10") (simp_all add: str_nat_small str_nat_large)

lemma str_nat_digits: "c \<in> set (str_nat n) \<Longrightarrow> 48 \<le> c \<and> c \<le> 57"
proof (induction n rule: str_nat.induct)
  case (1 n)
  show ?case
  proof (cases "n < 10")
    case True
    with "1.prems" show ?thesis by (simp add: str_nat_small)
  next
    case False
    have "n mod 10 < 10" by simp
    then have d: "48 \<le> (48::nat) + n mod 10 \<and> 48 + n mod 10 \<le> 57" by linarith
    from "1.prems" False have "c \<in> set (str_nat (n div 10)) \<or> c = 48 + n mod 10"
      by (auto simp: str_nat_large)
    then show ?thesis using "1.IH" [OF False] d by blast
  qed
qed

lemma str_nat_inj: "str_nat n = str_nat m \<Longrightarrow> n = m"
proof (induction n arbitrary: m rule: str_nat.induct)
  case (1 n)
  show ?case
  proof (cases "n < 10")
    case n: True
    show ?thesis
    proof (cases "m < 10")
      case True
      with n "1.prems" show ?thesis by (simp add: str_nat_small)
    next
      case False
      have "length (str_nat m) = Suc (length (str_nat (m div 10)))"
        using False by (simp add: str_nat_large)
      moreover have "length (str_nat (m div 10)) \<noteq> 0" using str_nat_nonempty by simp
      moreover have "length (str_nat n) = 1" using n by (simp add: str_nat_small)
      ultimately show ?thesis using "1.prems" by simp
    qed
  next
    case n: False
    show ?thesis
    proof (cases "m < 10")
      case True
      have "length (str_nat n) = Suc (length (str_nat (n div 10)))"
        using n by (simp add: str_nat_large)
      moreover have "length (str_nat (n div 10)) \<noteq> 0" using str_nat_nonempty by simp
      moreover have "length (str_nat m) = 1" using True by (simp add: str_nat_small)
      ultimately show ?thesis using "1.prems" by simp
    next
      case False
      have e: "str_nat (n div 10) @ [48 + n mod 10] = str_nat (m div 10) @ [48 + m mod 10]"
        using "1.prems" n False by (simp add: str_nat_large)
      then have "str_nat (n div 10) = str_nat (m div 10)" and md: "n mod 10 = m mod 10"
        by simp_all
      then have "n div 10 = m div 10" using "1.IH" [OF n] by blast
      then show ?thesis using md by (metis div_mult_mod_eq)
    qed
  qed
qed

lemma split_on_nonempty: "split_on c s \<noteq> []"
  by (induction s) (auto split: list.splits)

lemma split_on_append:
  "split_on c (xs @ ys) =
     butlast (split_on c xs) @ [last (split_on c xs) @ hd (split_on c ys)] @ tl (split_on c ys)"
proof (induction xs)
  case Nil
  then show ?case using split_on_nonempty [of c ys] by (cases "split_on c ys") simp_all
next
  case (Cons x xs)
  obtain w ws where s: "split_on c xs = w # ws"
    using split_on_nonempty [of c xs] by (cases "split_on c xs") auto
  obtain v vs where a: "split_on c (xs @ ys) = v # vs"
    using split_on_nonempty [of c "xs @ ys"] by (cases "split_on c (xs @ ys)") auto
  show ?case
  proof (cases "x = c")
    case True
    then show ?thesis using Cons s by simp
  next
    case False
    show ?thesis
    proof (cases ws)
      case Nil
      then show ?thesis using Cons s a False by simp
    next
      case (Cons u us)
      then show ?thesis using Cons.IH s a False by simp
    qed
  qed
qed

lemma split_on_absent: "c \<notin> set s \<Longrightarrow> split_on c s = [s]"
  by (induction s) simp_all

lemma singleton_middle:
  assumes "X @ D @ Y = [c]" and "D \<noteq> []"
  shows "D = [c]"
proof (cases X)
  case Nil
  then show ?thesis using assms by (cases D) simp_all
next
  case (Cons x xs)
  then show ?thesis using assms by simp
qed

lemma parse_path_parts_middle:
  assumes "of_char CHR ''/'' \<notin> set D" and "D \<noteq> []" and "D \<noteq> ustr ''.''"
  shows "parts (parse_path (A @ D @ B)) =
           filter (\<lambda>w. w \<noteq> [] \<and> w \<noteq> ustr ''.'') (butlast (split_on (of_char CHR ''/'') A))
           @ [last (split_on (of_char CHR ''/'') A) @ D @ hd (split_on (of_char CHR ''/'') B)]
           @ filter (\<lambda>w. w \<noteq> [] \<and> w \<noteq> ustr ''.'') (tl (split_on (of_char CHR ''/'') B))"
proof -
  let ?c = "of_char CHR ''/'' :: nat"
  let ?m = "last (split_on ?c A) @ D @ hd (split_on ?c B)"
  have d: "split_on ?c D = [D]" using assms(1) by (rule split_on_absent)
  have db: "split_on ?c (D @ B) = (D @ hd (split_on ?c B)) # tl (split_on ?c B)"
    by (subst split_on_append) (use d in simp)
  have all: "split_on ?c (A @ D @ B) = butlast (split_on ?c A) @ [?m] @ tl (split_on ?c B)"
    by (subst split_on_append) (use db in simp)
  have "?m \<noteq> []" using assms(2) by simp
  moreover have "?m \<noteq> ustr ''.''"
  proof
    assume "?m = ustr ''.''"
    then have "?m = [of_char CHR ''.'']" by (simp add: ustr_def)
    then have "D = [of_char CHR ''.'']" using assms(2) by (rule singleton_middle)
    then show False using assms(3) by (simp add: ustr_def)
  qed
  ultimately have keep: "?m \<noteq> [] \<and> ?m \<noteq> ustr ''.''" by blast
  show ?thesis
    unfolding parse_path_def path.sel all using keep by simp
qed

lemma parse_path_absolute_append:
  "A \<noteq> [] \<Longrightarrow> absolute (parse_path (A @ X)) = absolute (parse_path (A @ Y))"
  by (simp add: parse_path_def)

lemma str_nat_middle:
  "of_char CHR ''/'' \<notin> set (str_nat k) \<and> str_nat k \<noteq> [] \<and> str_nat k \<noteq> ustr ''.''"
proof -
  have "\<forall>c\<in>set (str_nat k). 48 \<le> c \<and> c \<le> 57" using str_nat_digits by blast
  moreover have "str_nat k \<noteq> []" by (rule str_nat_nonempty)
  ultimately show ?thesis by (auto simp: ustr_def)
qed

lemma numbered_candidate_inj:
  assumes "numbered_candidate out in_path d p t k = numbered_candidate out in_path d p t j"
  shows "k = j"
proof -
  let ?A = "d @ ustr ''_'' @ p @ ustr ''_'' @ t @ ustr ''_''"
  let ?B = "suffix_of in_path"
  let ?q = "\<lambda>n. parse_path (?A @ str_nat n @ ?B)"
  have name: "\<And>n. numbered_name d p t n ?B = ?A @ str_nat n @ ?B"
    by (simp add: numbered_name_def)
  have A: "?A \<noteq> []" by (simp add: ustr_def)
  have ab: "absolute (?q k) = absolute (?q j)" using A by (rule parse_path_absolute_append)
  have j: "joinpath out (?q k) = joinpath out (?q j)"
    using assms by (simp add: numbered_candidate_def name)
  have "parts (?q k) = parts (?q j)"
  proof (cases "absolute (?q k)")
    case True
    then show ?thesis using j ab by (simp add: joinpath_def)
  next
    case False
    then show ?thesis using j ab by (simp add: joinpath_def)
  qed
  moreover have "parts (?q k) = filter (\<lambda>w. w \<noteq> [] \<and> w \<noteq> ustr ''.'') (butlast (split_on (of_char CHR ''/'') ?A))
           @ [last (split_on (of_char CHR ''/'') ?A) @ str_nat k @ hd (split_on (of_char CHR ''/'') ?B)]
           @ filter (\<lambda>w. w \<noteq> [] \<and> w \<noteq> ustr ''.'') (tl (split_on (of_char CHR ''/'') ?B))"
    using str_nat_middle [of k] by (intro parse_path_parts_middle) blast+
  moreover have "parts (?q j) = filter (\<lambda>w. w \<noteq> [] \<and> w \<noteq> ustr ''.'') (butlast (split_on (of_char CHR ''/'') ?A))
           @ [last (split_on (of_char CHR ''/'') ?A) @ str_nat j @ hd (split_on (of_char CHR ''/'') ?B)]
           @ filter (\<lambda>w. w \<noteq> [] \<and> w \<noteq> ustr ''.'') (tl (split_on (of_char CHR ''/'') ?B))"
    using str_nat_middle [of j] by (intro parse_path_parts_middle) blast+
  ultimately have "str_nat k = str_nat j" by simp
  then show ?thesis by (rule str_nat_inj)
qed

lemma finite_existing: "finite {p. exists_fs fs p}"
proof -
  have "{p. exists_fs fs p} \<subseteq> {Path True [], Path False []} \<union> dom (map_of fs)"
  proof
    fix p assume "p \<in> {p. exists_fs fs p}"
    then have "parts p = [] \<or> p \<in> dom (map_of fs)" by (auto simp: exists_fs_def)
    then show "p \<in> {Path True [], Path False []} \<union> dom (map_of fs)"
      by (cases p) auto
  qed
  moreover have "finite ({Path True [], Path False []} \<union> dom (map_of fs))"
    by (simp add: finite_dom_map_of)
  ultimately show ?thesis by (rule finite_subset)
qed

lemma finite_numbered_existing:
  "finite {k. exists_fs fs (numbered_candidate out in_path d p t k)}"
proof -
  have "inj (numbered_candidate out in_path d p t)"
    by (rule injI) (rule numbered_candidate_inj)
  then have "finite (numbered_candidate out in_path d p t -` {q. exists_fs fs q})"
    using finite_existing by (rule finite_vimageI [rotated])
  then show ?thesis by (simp add: vimage_def)
qed

lemma path_exists_True: "path_exists fs q = Inr True \<Longrightarrow> exists_fs fs q"
  by (auto simp: path_exists_def split: if_splits)

lemma finite_numbered_found:
  "finite {k. path_exists fs (numbered_candidate out in_path d p t k) = Inr True}"
  using finite_numbered_existing [of fs out in_path d p t]
  by (rule rev_finite_subset) (auto dest: path_exists_True)

text \<open>
  The loop of the filename builder ends: the numbered candidates are pairwise different
  and only finitely many paths exist.
\<close>

termination unique_loop
proof (relation "measure (\<lambda>(fs, out, in_path, d, p, t, candidate, count).
          2 * card {k. count \<le> k \<and> path_exists fs (numbered_candidate out in_path d p t k) = Inr True}
          + (if path_exists fs candidate = Inr True then 1 else 0))")
  fix fs :: fs and out in_path :: path and d p t :: str and candidate :: path and count :: nat
    and found :: bool
  assume pe: "path_exists fs candidate = Inr found" and f: "found"
  have ex: "path_exists fs candidate = Inr True" using pe f by simp
  let ?S = "\<lambda>c. {k. c \<le> k \<and> path_exists fs (numbered_candidate out in_path d p t k) = Inr True}"
  have fin: "finite (?S count)"
    using finite_numbered_found [of fs out in_path d p t] by (rule rev_finite_subset) blast
  have sub: "?S (count + 1) \<subseteq> ?S count" by auto
  have le: "card (?S (count + 1)) \<le> card (?S count)" using fin sub by (rule card_mono)
  have "2 * card (?S (count + 1))
          + (if path_exists fs (numbered_candidate out in_path d p t count) = Inr True then 1 else 0)
        < 2 * card (?S count) + 1"
  proof (cases "path_exists fs (numbered_candidate out in_path d p t count) = Inr True")
    case True
    then have "count \<in> ?S count" "count \<notin> ?S (count + 1)" by simp_all
    then have "?S (count + 1) \<subset> ?S count" using sub by blast
    then have "card (?S (count + 1)) < card (?S count)" using fin by (simp add: psubset_card_mono)
    then show ?thesis using True by simp
  next
    case False
    then show ?thesis using le by simp
  qed
  then show "((fs, out, in_path, d, p, t, numbered_candidate out in_path d p t count, count + 1),
              (fs, out, in_path, d, p, t, candidate, count)) \<in> measure
          (\<lambda>(fs, out, in_path, d, p, t, candidate, count).
              2 * card {k. count \<le> k \<and> path_exists fs (numbered_candidate out in_path d p t k) = Inr True}
              + (if path_exists fs candidate = Inr True then 1 else 0))"
    using ex by simp
qed simp

declare unique_loop.simps [simp del]

lemma unique_loop_raise:
  "path_exists fs candidate = Inl e \<Longrightarrow> unique_loop fs out in_path d p t candidate count = Inl e"
  by (subst unique_loop.simps) simp

lemma unique_loop_exists:
  "path_exists fs candidate = Inr True \<Longrightarrow>
   unique_loop fs out in_path d p t candidate count =
     unique_loop fs out in_path d p t (numbered_candidate out in_path d p t count) (count + 1)"
  by (subst unique_loop.simps) simp

lemma unique_loop_free:
  "path_exists fs candidate = Inr False \<Longrightarrow>
   unique_loop fs out in_path d p t candidate count = Inr candidate"
  by (subst unique_loop.simps) simp

lemma path_exists_cases:
  obtains (raise) e where "path_exists fs q = Inl e"
    | (found) "path_exists fs q = Inr True"
    | (free) "path_exists fs q = Inr False"
proof (cases "path_exists fs q")
  case (Inl e)
  then show ?thesis by (rule raise)
next
  case (Inr b)
  then show ?thesis using found free by (cases b) simp_all
qed


lemma unique_loop_fresh:
  "unique_loop fs out in_path d p t candidate count = Inr q \<Longrightarrow> path_exists fs q = Inr False"
proof (induction fs out in_path d p t candidate count rule: unique_loop.induct)
  case (1 fs out in_path d p t candidate count)
  show ?case
  proof (cases rule: path_exists_cases [of fs candidate])
    case (raise e)
    then show ?thesis using "1.prems" by (simp add: unique_loop_raise)
  next
    case found
    then show ?thesis using "1.IH" [OF found] "1.prems" by (simp add: unique_loop_exists)
  next
    case free
    then show ?thesis using "1.prems" by (simp add: unique_loop_free)
  qed
qed












text \<open>
  Claim C10. When the stem has a separator (the last underscore, or the last hyphen of a
  stem without underscore), the two fields are the stripped texts around it: a side made
  of whitespace only, or empty, gives the empty string and not the sentinel. With an
  empty publisher the name built from the fields has two underscores in a row.
\<close>

theorem split_gives_empty_field:
  assumes "stem = a @ [sep] @ b"
      and "(sep = of_char CHR ''_'' \<and> of_char CHR ''_'' \<notin> set b)
           \<or> (sep = of_char CHR ''-'' \<and> of_char CHR ''_'' \<notin> set a \<and> of_char CHR ''_'' \<notin> set b
                \<and> of_char CHR ''-'' \<notin> set b)"
  shows "split_publisher_and_title stem = Inr (strip a, strip b)
         \<and> ((\<forall>c\<in>set b. isspace c) \<longrightarrow>
               split_publisher_and_title stem = Inr (strip a, [])
               \<and> candidate_name publish_date (kebab (strip b)) (kebab (strip a)) ext
                   = publish_date @ ustr ''__'' @ kebab (strip a) @ ext)
         \<and> ((\<forall>c\<in>set a. isspace c) \<longrightarrow> split_publisher_and_title stem = Inr ([], strip b))"
proof -
  have s: "split_publisher_and_title stem = Inr (strip a, strip b)"
    using assms(2)
  proof
    assume "sep = of_char CHR ''_'' \<and> of_char CHR ''_'' \<notin> set b"
    then show ?thesis using split_at_underscore [of b a] assms(1) by simp
  next
    assume "sep = of_char CHR ''-'' \<and> of_char CHR ''_'' \<notin> set a \<and> of_char CHR ''_'' \<notin> set b
                \<and> of_char CHR ''-'' \<notin> set b"
    then show ?thesis using split_at_hyphen [of a b] assms(1) by simp
  qed
  have k: "kebab [] = []" by (rule kebab_id) simp
  have b: "(\<forall>c\<in>set b. isspace c) \<longrightarrow>
               split_publisher_and_title stem = Inr (strip a, [])
               \<and> candidate_name publish_date (kebab (strip b)) (kebab (strip a)) ext
                   = publish_date @ ustr ''__'' @ kebab (strip a) @ ext"
    using s k by (auto simp: strip_all_space candidate_name_def ustr_def)
  have a: "(\<forall>c\<in>set a. isspace c) \<longrightarrow> split_publisher_and_title stem = Inr ([], strip b)"
    using s by (auto simp: strip_all_space)
  show ?thesis using s a b by blast
qed

theorem split_gives_empty_field_witness:
  "split_publisher_and_title (ustr ''report - '') = Inr (ustr ''report'', [])
   \<and> candidate_name (ustr ''no-date'') (kebab (strip (ustr '' ''))) (kebab (strip (ustr ''report ''))) (ustr ''.pdf'')
       = ustr ''no-date__report.pdf''
   \<and> split_publisher_and_title (ustr ''_WIRED'') = Inr ([], ustr ''WIRED'')"
proof -
  have d2: "ustr ''_WIRED'' = [] @ [of_char CHR ''_''] @ ustr ''WIRED''" by (simp add: ustr_def)
  have h2: "of_char CHR ''_'' \<notin> set (ustr ''WIRED'')" by (simp add: ustr_def)
  have st2: "strip (ustr ''WIRED'') = ustr ''WIRED''" by (simp add: strip_def ustr_def isspace_def)
  have w: "split_publisher_and_title (ustr ''_WIRED'') = Inr ([], ustr ''WIRED'')"
    using split_gives_empty_field [OF d2 disjI1 [OF conjI [OF refl h2]], of "[]" "[]"] st2
    by (simp add: strip_def)
  have d: "ustr ''report - '' = ustr ''report '' @ [of_char CHR ''-''] @ ustr '' ''"
    by (simp add: ustr_def)
  have h: "of_char CHR ''_'' \<notin> set (ustr ''report '') \<and> of_char CHR ''_'' \<notin> set (ustr '' '')
           \<and> of_char CHR ''-'' \<notin> set (ustr '' '')"
    by (simp add: ustr_def)
  have sp: "\<forall>c\<in>set (ustr '' ''). isspace c" by (simp add: ustr_def isspace_def)
  have st: "strip (ustr ''report '') = ustr ''report''"
    by (simp add: strip_def ustr_def isspace_def)
  have ns: "\<forall>c\<in>set (ustr ''report''). \<not> isspace c" by (simp add: ustr_def isspace_def)
  have kb: "kebab (ustr ''report'') = ustr ''report''" using ns by (rule kebab_id)
  have "split_publisher_and_title (ustr ''report - '') = Inr (strip (ustr ''report ''), [])
        \<and> candidate_name (ustr ''no-date'') (kebab (strip (ustr '' ''))) (kebab (strip (ustr ''report ''))) (ustr ''.pdf'')
            = ustr ''no-date'' @ ustr ''__'' @ kebab (strip (ustr ''report '')) @ ustr ''.pdf''"
    using split_gives_empty_field [OF d, of "ustr ''no-date''" "ustr ''.pdf''"] h sp by blast
  then have "split_publisher_and_title (ustr ''report - '') = Inr (ustr ''report'', [])
   \<and> candidate_name (ustr ''no-date'') (kebab (strip (ustr '' ''))) (kebab (strip (ustr ''report ''))) (ustr ''.pdf'')
       = ustr ''no-date__report.pdf''"
    by (simp add: st kb) (simp add: ustr_def)
  then show ?thesis using w by blast
qed

section \<open>Running a batch\<close>

text \<open>
  Claim C3, as the code orders its checks. A missing input directory or an input
  directory without PDF files gives exit code 0 and changes nothing, whether or not the
  output directory exists; a missing output directory gives exit code 1, with the file
  system untouched, when the input directory exists and holds a PDF file. A directory
  exists, or does not, by the answer of \<open>exists()\<close>.
\<close>

theorem run_exit_code:
  "(path_exists (fsys st) input_dir = Inr False
      \<or> (path_exists (fsys st) input_dir = Inr True \<and> glob_pdf (fsys st) input_dir = [])
      \<longrightarrow> run lib input_dir output_dir model_name date_fmt st = (st, Inr 0))
   \<and> (path_exists (fsys st) input_dir = Inr True \<and> glob_pdf (fsys st) input_dir \<noteq> []
        \<and> path_exists (fsys st) output_dir = Inr False
      \<longrightarrow> run lib input_dir output_dir model_name date_fmt st
            = (add_log (LogError (ustr ''Output directory does not exist.'')) st, Inr 1)
          \<and> fsys (fst (run lib input_dir output_dir model_name date_fmt st)) = fsys st)"
  by (auto simp: run_def Let_def add_log_def)

theorem run_exit_code_witness:
  "run (demo_lib (canned_model (ustr ''{}'') (ustr ''{}'')))
       (Path True [ustr ''in'']) (Path True [ustr ''out'']) (ustr ''llama3.2'') (ustr ''%Y%m%d'')
       \<lparr> fsys = [(Path True [ustr ''in''], Dir), (Path True [ustr ''in'', ustr ''a.pdf''], File (ustr ''A''))],
         log = [] \<rparr>
   = (\<lparr> fsys = [(Path True [ustr ''in''], Dir), (Path True [ustr ''in'', ustr ''a.pdf''], File (ustr ''A''))],
        log = [LogError (ustr ''Output directory does not exist.'')] \<rparr>, Inr 1)
   \<and> run (demo_lib (canned_model (ustr ''{}'') (ustr ''{}'')))
       (Path True [ustr ''in'']) (Path True [ustr ''out'']) (ustr ''llama3.2'') (ustr ''%Y%m%d'')
       \<lparr> fsys = [(Path True [ustr ''in''], Dir), (Path True [ustr ''in'', ustr ''a.txt''], File (ustr ''A''))],
         log = [] \<rparr>
   = (\<lparr> fsys = [(Path True [ustr ''in''], Dir), (Path True [ustr ''in'', ustr ''a.txt''], File (ustr ''A''))],
        log = [] \<rparr>, Inr 0)
   \<and> run (demo_lib (canned_model (ustr ''{}'') (ustr ''{}'')))
       (Path True [ustr ''in'']) (Path True [ustr ''out'']) (ustr ''llama3.2'') (ustr ''%Y%m%d'')
       \<lparr> fsys = [(Path True [ustr ''out''], Dir)], log = [] \<rparr>
   = (\<lparr> fsys = [(Path True [ustr ''out''], Dir)], log = [] \<rparr>, Inr 0)"
proof (intro conjI)
  note pe = path_exists_def encodable_def name_too_long_def path_text_def utf8_length_def
    utf8_width_def exists_fs_def ustr_def
  let ?lib = "demo_lib (canned_model (ustr ''{}'') (ustr ''{}''))"
  let ?in = "Path True [ustr ''in'']" and ?out = "Path True [ustr ''out'']"
  let ?st1 = "\<lparr> fsys = [(?in, Dir), (Path True [ustr ''in'', ustr ''a.pdf''], File (ustr ''A''))],
         log = [] \<rparr>"
  let ?st2 = "\<lparr> fsys = [(?in, Dir), (Path True [ustr ''in'', ustr ''a.txt''], File (ustr ''A''))],
         log = [] \<rparr>"
  let ?st3 = "\<lparr> fsys = [(?out, Dir)], log = [] \<rparr>"
  have i1: "path_exists (fsys ?st1) ?in = Inr True" by (simp add: pe)
  have g1: "glob_pdf (fsys ?st1) ?in \<noteq> []"
    by (simp add: glob_pdf_def parent_def name_of_def endswith_def ustr_def)
  have o1: "path_exists (fsys ?st1) ?out = Inr False" by (simp add: pe)
  have "run ?lib ?in ?out (ustr ''llama3.2'') (ustr ''%Y%m%d'') ?st1
        = (add_log (LogError (ustr ''Output directory does not exist.'')) ?st1, Inr 1)"
    using run_exit_code [of ?st1 ?in ?lib ?out "ustr ''llama3.2''" "ustr ''%Y%m%d''"] i1 g1 o1
    by blast
  then show "run ?lib ?in ?out (ustr ''llama3.2'') (ustr ''%Y%m%d'') ?st1
        = (\<lparr> fsys = [(?in, Dir), (Path True [ustr ''in'', ustr ''a.pdf''], File (ustr ''A''))],
        log = [LogError (ustr ''Output directory does not exist.'')] \<rparr>, Inr 1)"
    by (simp add: add_log_def)
  have i2: "path_exists (fsys ?st2) ?in = Inr True" by (simp add: pe)
  have g2: "glob_pdf (fsys ?st2) ?in = []"
    by (simp add: glob_pdf_def parent_def name_of_def endswith_def ustr_def)
  show "run ?lib ?in ?out (ustr ''llama3.2'') (ustr ''%Y%m%d'') ?st2 = (?st2, Inr 0)"
    using run_exit_code [of ?st2 ?in ?lib ?out "ustr ''llama3.2''" "ustr ''%Y%m%d''"] i2 g2
    by blast
  have i3: "path_exists (fsys ?st3) ?in = Inr False" by (simp add: pe)
  show "run ?lib ?in ?out (ustr ''llama3.2'') (ustr ''%Y%m%d'') ?st3 = (?st3, Inr 0)"
    using run_exit_code [of ?st3 ?in ?lib ?out "ustr ''llama3.2''" "ustr ''%Y%m%d''"] i3
    by blast
qed

text \<open>
  The claim as the specification words it (a missing output directory always gives exit
  code 1) fails when the input directory is missing too.
\<close>

theorem run_missing_output_counterexample:
  "path_exists (fsys \<lparr> fsys = [], log = [] \<rparr>) (Path True [ustr ''out'']) = Inr False
   \<and> snd (run (demo_lib (canned_model (ustr ''{}'') (ustr ''{}'')))
            (Path True [ustr ''in'']) (Path True [ustr ''out'']) (ustr ''llama3.2'') (ustr ''%Y%m%d'')
            \<lparr> fsys = [], log = [] \<rparr>) = Inr 0"
  by (simp add: run_def path_exists_def encodable_def name_too_long_def path_text_def
        utf8_length_def utf8_width_def exists_fs_def ustr_def)

lemma run_files_rename_raises:
  assumes "rename lib self (fsys st) file = Inl e"
  shows "run_files lib self output_dir (file # files) st
         = run_files lib self output_dir files
             (add_log (LogException e) (add_log (LogInfo (ustr ''Processing file (%s / %s).'')) st))"
  using assms by (simp add: add_log_def)

lemma run_files_abort:
  "run_files lib self output_dir files st = (st', Some e) \<Longrightarrow>
   \<exists>file\<in>set files. \<exists>fs renamed.
      rename lib self fs file = Inr (Some renamed)
      \<and> os_replace fs file (joinpath output_dir renamed) = Inl e"
proof (induction files arbitrary: st)
  case Nil
  then show ?case by simp
next
  case (Cons f rest)
  let ?st1 = "add_log (LogInfo (ustr ''Processing file (%s / %s).'')) st"
  show ?case
  proof (cases "rename lib self (fsys ?st1) f")
    case (Inl x)
    then have "run_files lib self output_dir rest (add_log (LogException x) ?st1) = (st', Some e)"
      using Cons.prems by (simp add: Let_def)
    then show ?thesis using Cons.IH by fastforce
  next
    case (Inr r)
    show ?thesis
    proof (cases r)
      case None
      then have "run_files lib self output_dir rest ?st1 = (st', Some e)"
        using Cons.prems Inr by (simp add: Let_def)
      then show ?thesis using Cons.IH by fastforce
    next
      case (Some renamed)
      show ?thesis
      proof (cases "os_replace (fsys ?st1) f (joinpath output_dir renamed)")
        case (Inl x)
        then have "x = e" using Cons.prems Inr Some by (simp add: Let_def)
        then have "rename lib self (fsys ?st1) f = Inr (Some renamed)
                   \<and> os_replace (fsys ?st1) f (joinpath output_dir renamed) = Inl e"
          using Inl Inr Some by simp
        then show ?thesis by auto
      next
        case (Inr fs')
        then have "run_files lib self output_dir rest (?st1\<lparr>fsys := fs'\<rparr>) = (st', Some e)"
          using Cons.prems \<open>rename lib self (fsys ?st1) f = Inr r\<close> Some by (simp add: Let_def)
        then show ?thesis using Cons.IH by fastforce
      qed
    qed
  qed
qed

text \<open>
  The two ways a file can fail. An exception raised by \<open>rename\<close> is logged, the file
  system is left as it is for that file, and the loop goes on with the files that
  remain. When the loop does end with an exception, that exception came from the move of
  a file whose renaming had succeeded.
\<close>

lemma rename_failure_is_logged_and_skipped:
  "(rename lib self (fsys st) file = Inl e \<longrightarrow>
      run_files lib self output_dir (file # files) st
        = run_files lib self output_dir files
            (add_log (LogException e) (add_log (LogInfo (ustr ''Processing file (%s / %s).'')) st)))
   \<and> (run_files lib self output_dir batch st = (st', Some e') \<longrightarrow>
        (\<exists>f\<in>set batch. \<exists>fs renamed.
            rename lib self fs f = Inr (Some renamed)
            \<and> os_replace fs f (joinpath output_dir renamed) = Inl e'))"
  using run_files_rename_raises run_files_abort by blast

lemma garbled_rename:
  "rename (demo_lib garbled_model) (renamer_of garbled_model (Path True [ustr ''out''])) fs p = Inl TypeError"
  by (simp add: rename_def demo_lib_def renamer_of_def garbled_model_def canned_model_def
        extract_publish_date_def invoke_model_def demo_loads_def has_value_def ustr_def)

lemma slash_rename:
  "rename (demo_lib slash_model) (renamer_of slash_model (Path True [ustr ''out''])) batch_fs
      (Path True [ustr ''in'', ustr ''a.pdf''])
   = Inr (Some (Path True [ustr ''out'', ustr ''no-date_P_AC'', ustr ''DC.pdf'']))"
proof -
  let ?lib = "demo_lib slash_model" and ?self = "renamer_of slash_model (Path True [ustr ''out''])"
  let ?in = "Path True [ustr ''in'', ustr ''a.pdf'']"
  have d: "extract_publish_date ?lib ?self (ustr ''Feb. 10, 2025'') = Inr None"
    by (simp add: demo_lib_def renamer_of_def slash_model_def canned_model_def
          extract_publish_date_def invoke_model_def demo_loads_def has_value_def ustr_def)
  have e: "extract_publisher ?lib ?self (name_of ?in) = Inr (PStr (ustr ''AC/DC''), PStr (ustr ''P''))"
    by (simp add: demo_lib_def renamer_of_def slash_model_def canned_model_def
          extract_publisher_def extract_field_def invoke_model_def demo_loads_def has_value_def ustr_def)
  have f: "fill_missing (PStr (ustr ''AC/DC''), PStr (ustr ''P'')) (stem_of ?in)
           = Inr (PStr (ustr ''AC/DC''), PStr (ustr ''P''))"
    by (simp add: fill_missing_def)
  have k1: "kebab (ustr ''AC/DC'') = ustr ''AC/DC''" by (rule kebab_id) (simp add: ustr_def isspace_def)
  have k2: "kebab (ustr ''P'') = ustr ''P''" by (rule kebab_id) (simp add: ustr_def isspace_def)
  have sfx: "suffix_of ?in = ustr ''.pdf''"
    by (simp add: suffix_of_def name_of_def rsplit1_def ustr_def)
  have base: "base_candidate (Path True [ustr ''out'']) ?in (ustr ''no-date'') (ustr ''P'') (ustr ''AC/DC'')
              = Path True [ustr ''out'', ustr ''no-date_P_AC'', ustr ''DC.pdf'']"
    by (simp add: base_candidate_def candidate_name_def sfx)
       (simp add: parse_path_def joinpath_def ustr_def)
  have free: "path_exists batch_fs (Path True [ustr ''out'', ustr ''no-date_P_AC'', ustr ''DC.pdf''])
              = Inr False"
    by (simp add: path_exists_def encodable_def name_too_long_def path_text_def utf8_length_def
          utf8_width_def exists_fs_def batch_fs_def ustr_def)
  have m: "make_unique_filename ?self batch_fs ?in (ustr ''no-date'') (ustr ''P'') (ustr ''AC/DC'')
           = Inr (Path True [ustr ''out'', ustr ''no-date_P_AC'', ustr ''DC.pdf''])"
    using free by (simp add: make_unique_filename_def renamer_of_def base unique_loop_free)
  have l: "load_first_page ?lib ?in = Inr (ustr ''Feb. 10, 2025'')" by (simp add: demo_lib_def)
  show ?thesis
    unfolding rename_def l by (simp add: d e f k1 k2 m)
qed

lemma slash_move:
  "os_replace batch_fs (Path True [ustr ''in'', ustr ''a.pdf''])
      (joinpath (Path True [ustr ''out'']) (Path True [ustr ''out'', ustr ''no-date_P_AC'', ustr ''DC.pdf'']))
   = Inl FileNotFoundError"
  by (simp add: os_replace_def joinpath_def batch_fs_def exists_fs_def parent_def encodable_def
        name_too_long_def path_text_def utf8_length_def utf8_width_def ustr_def)

lemma batch_glob:
  "glob_pdf batch_fs (Path True [ustr ''in''])
   = [Path True [ustr ''in'', ustr ''a.pdf''], Path True [ustr ''in'', ustr ''b.pdf'']]"
  by (simp add: glob_pdf_def batch_fs_def parent_def name_of_def endswith_def ustr_def)

lemma slash_run_files:
  "run_files (demo_lib slash_model) (renamer_of slash_model (Path True [ustr ''out'']))
      (Path True [ustr ''out''])
      [Path True [ustr ''in'', ustr ''a.pdf''], Path True [ustr ''in'', ustr ''b.pdf'']]
      \<lparr> fsys = batch_fs, log = l \<rparr>
   = (\<lparr> fsys = batch_fs, log = l @ [LogInfo (ustr ''Processing file (%s / %s).'')] \<rparr>,
      Some FileNotFoundError)"
  using slash_rename slash_move by (simp add: add_log_def)

lemma garbled_run_files:
  "run_files (demo_lib garbled_model) (renamer_of garbled_model (Path True [ustr ''out'']))
      (Path True [ustr ''out''])
      [Path True [ustr ''in'', ustr ''a.pdf''], Path True [ustr ''in'', ustr ''b.pdf'']]
      \<lparr> fsys = batch_fs, log = l \<rparr>
   = (\<lparr> fsys = batch_fs,
        log = l @ [LogInfo (ustr ''Processing file (%s / %s).''), LogException TypeError,
                   LogInfo (ustr ''Processing file (%s / %s).''), LogException TypeError] \<rparr>, None)"
  using garbled_rename by (simp add: add_log_def)

lemma batch_dirs:
  "path_exists batch_fs (Path True [ustr ''in'']) = Inr True"
  "path_exists batch_fs (Path True [ustr ''out'']) = Inr True"
  by (simp_all add: path_exists_def encodable_def name_too_long_def path_text_def utf8_length_def
        utf8_width_def exists_fs_def batch_fs_def ustr_def)

text \<open>
  Claim C2 on the code. With a model title that holds a slash the new name lies in a
  directory that does not exist: \<open>rename\<close> succeeds for the first file, the move raises
  \<open>FileNotFoundError\<close>, and \<open>run\<close> ends with that exception, which is not logged;
  the second file is never processed and the file system is as before. The same batch
  with a model answer that is not JSON, where \<open>rename\<close> itself raises for each file,
  runs to its end with both exceptions logged and exit code 0.
\<close>

theorem move_failure_aborts_batch:
  "run (demo_lib slash_model) (Path True [ustr ''in'']) (Path True [ustr ''out''])
       (ustr ''llama3.2'') (ustr ''%Y%m%d'') \<lparr> fsys = batch_fs, log = [] \<rparr>
   = (\<lparr> fsys = batch_fs,
        log = [LogInfo (ustr ''Found (%s) files to modify.''),
               LogInfo (ustr ''Processing file (%s / %s).'')] \<rparr>,
      Inl FileNotFoundError)
   \<and> run (demo_lib garbled_model) (Path True [ustr ''in'']) (Path True [ustr ''out''])
       (ustr ''llama3.2'') (ustr ''%Y%m%d'') \<lparr> fsys = batch_fs, log = [] \<rparr>
   = (\<lparr> fsys = batch_fs,
        log = [LogInfo (ustr ''Found (%s) files to modify.''),
               LogInfo (ustr ''Processing file (%s / %s).''), LogException TypeError,
               LogInfo (ustr ''Processing file (%s / %s).''), LogException TypeError,
               LogInfo (ustr ''Renamed (%s) files.'')] \<rparr>,
      Inr 0)"
proof
  have s: "\<lparr> model = chat_ollama (demo_lib slash_model) (ustr ''llama3.2''), date_format = ustr ''%Y%m%d'',
             out_path = Path True [ustr ''out''] \<rparr> = renamer_of slash_model (Path True [ustr ''out''])"
    by (simp add: renamer_of_def demo_lib_def)
  show "run (demo_lib slash_model) (Path True [ustr ''in'']) (Path True [ustr ''out''])
       (ustr ''llama3.2'') (ustr ''%Y%m%d'') \<lparr> fsys = batch_fs, log = [] \<rparr>
   = (\<lparr> fsys = batch_fs,
        log = [LogInfo (ustr ''Found (%s) files to modify.''),
               LogInfo (ustr ''Processing file (%s / %s).'')] \<rparr>,
      Inl FileNotFoundError)"
    unfolding run_def
    by (simp add: batch_dirs batch_glob s add_log_def Let_def
          slash_run_files [of "[LogInfo (ustr ''Found (%s) files to modify.'')]"]
          del: run_files.simps)
next
  have s: "\<lparr> model = chat_ollama (demo_lib garbled_model) (ustr ''llama3.2''), date_format = ustr ''%Y%m%d'',
             out_path = Path True [ustr ''out''] \<rparr> = renamer_of garbled_model (Path True [ustr ''out''])"
    by (simp add: renamer_of_def demo_lib_def)
  show "run (demo_lib garbled_model) (Path True [ustr ''in'']) (Path True [ustr ''out''])
       (ustr ''llama3.2'') (ustr ''%Y%m%d'') \<lparr> fsys = batch_fs, log = [] \<rparr>
   = (\<lparr> fsys = batch_fs,
        log = [LogInfo (ustr ''Found (%s) files to modify.''),
               LogInfo (ustr ''Processing file (%s / %s).''), LogException TypeError,
               LogInfo (ustr ''Processing file (%s / %s).''), LogException TypeError,
               LogInfo (ustr ''Renamed (%s) files.'')] \<rparr>,
      Inr 0)"
    unfolding run_def
    by (simp add: batch_dirs batch_glob s add_log_def Let_def
          garbled_run_files [of "[LogInfo (ustr ''Found (%s) files to modify.'')]"]
          del: run_files.simps)
qed

text \<open>
  With an absolute output directory every candidate is absolute, so joining the output
  directory in front of the renamed path changes nothing, and the destination of the
  move is the free path the filename builder returned.
\<close>

lemma unique_loop_absolute:
  "absolute out \<Longrightarrow> absolute candidate \<Longrightarrow>
   unique_loop fs out in_path d p t candidate count = Inr q \<Longrightarrow> absolute q"
proof (induction fs out in_path d p t candidate count rule: unique_loop.induct)
  case (1 fs out in_path d p t candidate count)
  show ?case
  proof (cases rule: path_exists_cases [of fs candidate])
    case (raise e)
    then show ?thesis using "1.prems"(3) by (simp add: unique_loop_raise)
  next
    case found
    have a: "absolute (numbered_candidate out in_path d p t count)"
      using "1.prems"(1) by (simp add: numbered_candidate_def joinpath_def)
    have r: "unique_loop fs out in_path d p t (numbered_candidate out in_path d p t count) (count + 1) = Inr q"
      using "1.prems"(3) found by (simp add: unique_loop_exists)
    show ?thesis using "1.IH" [OF found TrueI "1.prems"(1) a r] .
  next
    case free
    then show ?thesis using "1.prems"(2,3) by (simp add: unique_loop_free)
  qed
qed

lemma move_target_absolute:
  assumes "absolute (out_path self)"
      and "make_unique_filename self fs in_path d p t = Inr q"
  shows "joinpath (out_path self) q = q \<and> path_exists fs (joinpath (out_path self) q) = Inr False"
proof -
  have b: "absolute (base_candidate (out_path self) in_path d p t)"
    using assms(1) by (simp add: base_candidate_def joinpath_def)
  have "absolute q"
    using unique_loop_absolute [OF assms(1) b assms(2) [unfolded make_unique_filename_def]] .
  then have j: "joinpath (out_path self) q = q" by (simp add: joinpath_def)
  moreover have "path_exists fs q = Inr False"
    using assms(2) unfolding make_unique_filename_def by (rule unique_loop_fresh)
  ultimately show ?thesis by simp
qed

lemma rel_rename:
  "rename (demo_lib empty_model) (renamer_of empty_model (Path False [ustr ''out''])) rel_fs
      (Path False [ustr ''in'', ustr ''a.pdf''])
   = Inr (Some (Path False [ustr ''out'', ustr ''no-date_no-publisher_a.pdf'']))"
proof -
  let ?lib = "demo_lib empty_model" and ?self = "renamer_of empty_model (Path False [ustr ''out''])"
  let ?in = "Path False [ustr ''in'', ustr ''a.pdf'']"
  have d: "extract_publish_date ?lib ?self (ustr ''Feb. 10, 2025'') = Inr None"
    by (simp add: demo_lib_def renamer_of_def empty_model_def canned_model_def
          extract_publish_date_def invoke_model_def demo_loads_def has_value_def ustr_def)
  have e: "extract_publisher ?lib ?self (name_of ?in) = Inr (PNone, PNone)"
    by (simp add: demo_lib_def renamer_of_def empty_model_def canned_model_def
          extract_publisher_def extract_field_def invoke_model_def demo_loads_def has_value_def ustr_def)
  have st: "stem_of ?in = ustr ''a''"
    by (simp add: stem_of_def name_of_def rsplit1_def ustr_def)
  have sp: "split_publisher_and_title (ustr ''a'') = Inr (ustr ''a'', ustr ''no-publisher'')"
    by (simp add: split_publisher_and_title_def rsplit1_def strip_def ustr_def isspace_def)
  have f: "fill_missing (PNone, PNone) (stem_of ?in) = Inr (PStr (ustr ''a''), PStr (ustr ''no-publisher''))"
    by (simp add: fill_missing_def st sp py_or_def)
  have k1: "kebab (ustr ''a'') = ustr ''a''" by (rule kebab_id) (simp add: ustr_def isspace_def)
  have k2: "kebab (ustr ''no-publisher'') = ustr ''no-publisher''"
    by (rule kebab_id) (simp add: ustr_def isspace_def)
  have sfx: "suffix_of ?in = ustr ''.pdf''"
    by (simp add: suffix_of_def name_of_def rsplit1_def ustr_def)
  have base: "base_candidate (Path False [ustr ''out'']) ?in (ustr ''no-date'') (ustr ''no-publisher'') (ustr ''a'')
              = Path False [ustr ''out'', ustr ''no-date_no-publisher_a.pdf'']"
    by (simp add: base_candidate_def candidate_name_def sfx)
       (simp add: parse_path_def joinpath_def ustr_def)
  have free: "path_exists rel_fs (Path False [ustr ''out'', ustr ''no-date_no-publisher_a.pdf''])
              = Inr False"
    by (simp add: path_exists_def encodable_def name_too_long_def path_text_def utf8_length_def
          utf8_width_def exists_fs_def rel_fs_def ustr_def)
  have m: "make_unique_filename ?self rel_fs ?in (ustr ''no-date'') (ustr ''no-publisher'') (ustr ''a'')
           = Inr (Path False [ustr ''out'', ustr ''no-date_no-publisher_a.pdf''])"
    using free by (simp add: make_unique_filename_def renamer_of_def base unique_loop_free)
  have l: "load_first_page ?lib ?in = Inr (ustr ''Feb. 10, 2025'')" by (simp add: demo_lib_def)
  show ?thesis
    unfolding rename_def l by (simp add: d e f k1 k2 m)
qed

lemma rel_move:
  "os_replace rel_fs (Path False [ustr ''in'', ustr ''a.pdf''])
      (joinpath (Path False [ustr ''out'']) (Path False [ustr ''out'', ustr ''no-date_no-publisher_a.pdf'']))
   = Inr [(Path False [ustr ''out'', ustr ''out'', ustr ''no-date_no-publisher_a.pdf''], File (ustr ''A'')),
          (Path False [ustr ''in''], Dir),
          (Path False [ustr ''out''], Dir),
          (Path False [ustr ''out'', ustr ''out''], Dir)]"
  by (simp add: os_replace_def joinpath_def rel_fs_def exists_fs_def is_dir_def parent_def
        encodable_def name_too_long_def path_text_def utf8_length_def utf8_width_def ustr_def)

lemma rel_glob:
  "glob_pdf rel_fs (Path False [ustr ''in'']) = [Path False [ustr ''in'', ustr ''a.pdf'']]"
  by (simp add: glob_pdf_def rel_fs_def parent_def name_of_def endswith_def ustr_def)

lemma rel_run_files:
  "run_files (demo_lib empty_model) (renamer_of empty_model (Path False [ustr ''out'']))
      (Path False [ustr ''out'']) [Path False [ustr ''in'', ustr ''a.pdf'']]
      \<lparr> fsys = rel_fs, log = l \<rparr>
   = (\<lparr> fsys = [(Path False [ustr ''out'', ustr ''out'', ustr ''no-date_no-publisher_a.pdf''], File (ustr ''A'')),
                 (Path False [ustr ''in''], Dir),
                 (Path False [ustr ''out''], Dir),
                 (Path False [ustr ''out'', ustr ''out''], Dir)],
        log = l @ [LogInfo (ustr ''Processing file (%s / %s).'')] \<rparr>, None)"
  using rel_rename rel_move by (simp add: add_log_def)

text \<open>
  Claim C4 on the code. \<open>rename\<close> returns the candidate with the output directory
  already in front, and \<open>run\<close> joins the output directory to it once more. For the
  relative directory \<open>out\<close> the destination of the move is \<open>out/out/...\<close>, not the
  candidate \<open>out/...\<close> that was checked, and the move replaces the file that is there.
\<close>

theorem relative_output_dir_overwrites:
  "rename (demo_lib empty_model) (renamer_of empty_model (Path False [ustr ''out''])) rel_fs
      (Path False [ustr ''in'', ustr ''a.pdf''])
     = Inr (Some (Path False [ustr ''out'', ustr ''no-date_no-publisher_a.pdf'']))
   \<and> joinpath (Path False [ustr ''out'']) (Path False [ustr ''out'', ustr ''no-date_no-publisher_a.pdf''])
     = Path False [ustr ''out'', ustr ''out'', ustr ''no-date_no-publisher_a.pdf'']
   \<and> map_of rel_fs (Path False [ustr ''out'', ustr ''out'', ustr ''no-date_no-publisher_a.pdf''])
     = Some (File (ustr ''OLD''))
   \<and> run (demo_lib empty_model) (Path False [ustr ''in'']) (Path False [ustr ''out''])
        (ustr ''llama3.2'') (ustr ''%Y%m%d'') \<lparr> fsys = rel_fs, log = [] \<rparr>
     = (\<lparr> fsys = [(Path False [ustr ''out'', ustr ''out'', ustr ''no-date_no-publisher_a.pdf''], File (ustr ''A'')),
                   (Path False [ustr ''in''], Dir),
                   (Path False [ustr ''out''], Dir),
                   (Path False [ustr ''out'', ustr ''out''], Dir)],
          log = [LogInfo (ustr ''Found (%s) files to modify.''),
                 LogInfo (ustr ''Processing file (%s / %s).''),
                 LogInfo (ustr ''Renamed (%s) files.'')] \<rparr>, Inr 0)"
proof (intro conjI)
  show "rename (demo_lib empty_model) (renamer_of empty_model (Path False [ustr ''out''])) rel_fs
      (Path False [ustr ''in'', ustr ''a.pdf''])
     = Inr (Some (Path False [ustr ''out'', ustr ''no-date_no-publisher_a.pdf'']))"
    by (rule rel_rename)
next
  show "joinpath (Path False [ustr ''out'']) (Path False [ustr ''out'', ustr ''no-date_no-publisher_a.pdf''])
     = Path False [ustr ''out'', ustr ''out'', ustr ''no-date_no-publisher_a.pdf'']"
    by (simp add: joinpath_def)
next
  show "map_of rel_fs (Path False [ustr ''out'', ustr ''out'', ustr ''no-date_no-publisher_a.pdf''])
     = Some (File (ustr ''OLD''))"
    by (simp add: rel_fs_def ustr_def)
next
  have i: "path_exists rel_fs (Path False [ustr ''in'']) = Inr True"
          "path_exists rel_fs (Path False [ustr ''out'']) = Inr True"
    by (simp_all add: path_exists_def encodable_def name_too_long_def path_text_def utf8_length_def
          utf8_width_def exists_fs_def rel_fs_def ustr_def)
  have s: "\<lparr> model = chat_ollama (demo_lib empty_model) (ustr ''llama3.2''), date_format = ustr ''%Y%m%d'',
             out_path = Path False [ustr ''out''] \<rparr> = renamer_of empty_model (Path False [ustr ''out''])"
    by (simp add: renamer_of_def demo_lib_def)
  show "run (demo_lib empty_model) (Path False [ustr ''in'']) (Path False [ustr ''out''])
        (ustr ''llama3.2'') (ustr ''%Y%m%d'') \<lparr> fsys = rel_fs, log = [] \<rparr>
     = (\<lparr> fsys = [(Path False [ustr ''out'', ustr ''out'', ustr ''no-date_no-publisher_a.pdf''], File (ustr ''A'')),
                   (Path False [ustr ''in''], Dir),
                   (Path False [ustr ''out''], Dir),
                   (Path False [ustr ''out'', ustr ''out''], Dir)],
          log = [LogInfo (ustr ''Found (%s) files to modify.''),
                 LogInfo (ustr ''Processing file (%s / %s).''),
                 LogInfo (ustr ''Renamed (%s) files.'')] \<rparr>, Inr 0)"
    unfolding run_def
    by (simp add: i rel_glob s add_log_def Let_def
          rel_run_files [of "[LogInfo (ustr ''Found (%s) files to modify.'')]"]
          del: run_files.simps)
qed

end
